theory Spec2Isabelle
  imports Main "HOL-Library.Sublist"
begin

section \<open>The gateway of the AZUREMAI2 backend\<close>

text \<open>
  The server file of the repository, an \<^verbatim>\<open>http.createServer\<close> handler with the two
  helpers \<^verbatim>\<open>sendJson\<close> and \<^verbatim>\<open>setCors\<close>, is embedded here. Strings are byte strings:
  Node presents the method, the url and the header values of a request as latin1 text,
  and a JSON text is taken in its UTF-8 encoding, so that \<^verbatim>\<open>Buffer.byteLength\<close> of a
  text is the length of the list.
\<close>

subsection \<open>Regular expressions, as far as the literals of \<^verbatim>\<open>setCors\<close> need them\<close>

text \<open>
  A pattern character of a literal with the flag \<^verbatim>\<open>i\<close>, a negated one-character
  class \<^verbatim>\<open>[^c]\<close>, and \<^verbatim>\<open>\d\<close>. ECMAScript compares characters under \<^verbatim>\<open>i\<close>
  after \<^verbatim>\<open>Canonicalize\<close>, which upper-cases; outside ASCII it never yields an ASCII
  character, so for the ASCII pattern characters used here only the letters a to z are
  affected.
\<close>

datatype atom = Chr char | NotChr char | Digit

definition canonicalize :: "char \<Rightarrow> char" where
  "canonicalize c =
     (let n = (of_char c :: nat) in if 97 \<le> n \<and> n \<le> 122 then char_of (n - 32) else c)"

fun atom_matches :: "atom \<Rightarrow> char \<Rightarrow> bool" where
  "atom_matches (Chr p) c = (canonicalize c = canonicalize p)"
| "atom_matches (NotChr p) c = (canonicalize c \<noteq> canonicalize p)"
| "atom_matches Digit c = (48 \<le> (of_char c :: nat) \<and> (of_char c :: nat) \<le> 57)"

datatype re = Fail | Empty | One atom | Seq re re | Alt re re | Star re

text \<open>\<^verbatim>\<open>r+\<close>, \<^verbatim>\<open>(?:r)?\<close> and a run of pattern characters.\<close>

definition Plus :: "re \<Rightarrow> re" where
  "Plus r = Seq r (Star r)"

definition Opt :: "re \<Rightarrow> re" where
  "Opt r = Alt r Empty"

fun Lit :: "string \<Rightarrow> re" where
  "Lit [] = Empty"
| "Lit (c # cs) = Seq (One (Chr c)) (Lit cs)"

text \<open>
  Matching a whole string by derivatives. The two literals have no capture that is read,
  no back-reference and no look-around, so whether the backtracking matcher of ECMAScript
  succeeds from a start index is membership of a substring in the pattern's language.
\<close>

fun nullable :: "re \<Rightarrow> bool" where
  "nullable Fail = False"
| "nullable Empty = True"
| "nullable (One a) = False"
| "nullable (Seq r s) = (nullable r \<and> nullable s)"
| "nullable (Alt r s) = (nullable r \<or> nullable s)"
| "nullable (Star r) = True"

fun deriv :: "char \<Rightarrow> re \<Rightarrow> re" where
  "deriv c Fail = Fail"
| "deriv c Empty = Fail"
| "deriv c (One a) = (if atom_matches a c then Empty else Fail)"
| "deriv c (Seq r s) =
     (if nullable r then Alt (Seq (deriv c r) s) (deriv c s) else Seq (deriv c r) s)"
| "deriv c (Alt r s) = Alt (deriv c r) (deriv c s)"
| "deriv c (Star r) = Seq (deriv c r) (Star r)"

fun matches :: "re \<Rightarrow> string \<Rightarrow> bool" where
  "matches r [] = nullable r"
| "matches r (c # cs) = matches (deriv c r) cs"

text \<open>
  A literal is its pattern and whether \<^verbatim>\<open>^\<close> stands at its start and \<^verbatim>\<open>$\<close> at its
  end (neither literal has the flag \<^verbatim>\<open>m\<close>). \<^verbatim>\<open>RegExp.prototype.test\<close> tries every
  start index of the string in turn: without \<^verbatim>\<open>^\<close> any of them may succeed, and
  without \<^verbatim>\<open>$\<close> the match may end anywhere.
\<close>

record regexp =
  anchor_start :: bool
  pattern :: re
  anchor_end :: bool

definition test :: "regexp \<Rightarrow> string \<Rightarrow> bool" where
  "test rx s =
     list_ex (\<lambda>t. list_ex (matches (pattern rx)) (if anchor_end rx then [t] else prefixes t))
       (if anchor_start rx then [s] else suffixes s)"

text \<open>The language of a pattern, against which the matcher is checked below.\<close>

inductive in_lang :: "re \<Rightarrow> string \<Rightarrow> bool" where
  Empty: "in_lang Empty []"
| One: "atom_matches a c \<Longrightarrow> in_lang (One a) [c]"
| Seq: "in_lang r u \<Longrightarrow> in_lang s v \<Longrightarrow> in_lang (Seq r s) (u @ v)"
| AltL: "in_lang r u \<Longrightarrow> in_lang (Alt r s) u"
| AltR: "in_lang s u \<Longrightarrow> in_lang (Alt r s) u"
| StarNil: "in_lang (Star r) []"
| StarStep: "in_lang r u \<Longrightarrow> in_lang (Star r) v \<Longrightarrow> in_lang (Star r) (u @ v)"

text \<open>\<^verbatim>\<open>/https:\/\/([^.]+\.)*sunfirematrix\.com$/i\<close>\<close>

definition sunfire_re :: regexp where
  "sunfire_re =
     \<lparr>anchor_start = False,
      pattern = Seq (Lit ''https://'')
                 (Seq (Star (Seq (Plus (One (NotChr CHR ''.''))) (One (Chr CHR ''.''))))
                      (Lit ''sunfirematrix.com'')),
      anchor_end = True\<rparr>"

text \<open>\<^verbatim>\<open>/^http:\/\/localhost(?::\d+)?$/i\<close>\<close>

definition local_re :: regexp where
  "local_re =
     \<lparr>anchor_start = True,
      pattern = Seq (Lit ''http://localhost'')
                 (Opt (Seq (One (Chr CHR '':'')) (Plus (One Digit)))),
      anchor_end = True\<rparr>"

text \<open>\<^verbatim>\<open>String.prototype.startsWith\<close>\<close>

definition startsWith :: "string \<Rightarrow> string \<Rightarrow> bool" where
  "startsWith s p = (take (length p) s = p)"

subsection \<open>JSON values and \<^verbatim>\<open>JSON.stringify\<close>\<close>

text \<open>
  A JSON value; an object lists its properties in enumeration order. A number is finite
  and carries the text that \<^verbatim>\<open>Number.prototype.toString\<close> prints for it (floating point
  is not modelled; \<^verbatim>\<open>JSON.stringify\<close> prints NaN and the infinities as \<^verbatim>\<open>null\<close>, so they
  stand as \<open>JNull\<close>).
\<close>

datatype json =
    JNull
  | JBool bool
  | JNum string
  | JStr string
  | JArr "json list"
  | JObj "(string \<times> json) list"

definition hex :: "nat \<Rightarrow> char" where
  "hex n = ''0123456789abcdef'' ! (n mod 16)"

text \<open>\<^verbatim>\<open>QuoteJSONString\<close> of ECMAScript, on the UTF-8 bytes of the string.\<close>

definition quote_char :: "char \<Rightarrow> string" where
  "quote_char c =
     (let n = (of_char c :: nat) in
      if n = 8 then [CHR 0x5C, CHR ''b'']
      else if n = 9 then [CHR 0x5C, CHR ''t'']
      else if n = 10 then [CHR 0x5C, CHR ''n'']
      else if n = 12 then [CHR 0x5C, CHR ''f'']
      else if n = 13 then [CHR 0x5C, CHR ''r'']
      else if n = 34 then [CHR 0x5C, CHR 0x22]
      else if n = 92 then [CHR 0x5C, CHR 0x5C]
      else if n < 32 then [CHR 0x5C, CHR ''u'', CHR ''0'', CHR ''0'', hex (n div 16), hex n]
      else [c])"

definition quoteJSONString :: "string \<Rightarrow> string" where
  "quoteJSONString s = [CHR 0x22] @ concat (map quote_char s) @ [CHR 0x22]"

fun join :: "string \<Rightarrow> string list \<Rightarrow> string" where
  "join sep [] = []"
| "join sep [x] = x"
| "join sep (x # y # ys) = x @ sep @ join sep (y # ys)"

fun stringify :: "json \<Rightarrow> string" where
  "stringify JNull = ''null''"
| "stringify (JBool b) = (if b then ''true'' else ''false'')"
| "stringify (JNum n) = n"
| "stringify (JStr s) = quoteJSONString s"
| "stringify (JArr xs) = ''['' @ join '','' (map stringify xs) @ '']''"
| "stringify (JObj kvs) =
     ''{'' @ join '','' (map (\<lambda>kv. quoteJSONString (fst kv) @ '':'' @ stringify (snd kv)) kvs)
       @ ''}''"

definition byteLength :: "string \<Rightarrow> nat" where
  "byteLength s = length s"

subsection \<open>Requests, collaborators and the effects of a handler run\<close>

text \<open>
  An incoming request. Node lower-cases the names of the headers. The body arrives as the
  \<^verbatim>\<open>data\<close> events of the stream, in order, followed by \<^verbatim>\<open>end\<close>; a chunk stands here
  as the text that \<^verbatim>\<open>body += chunk\<close> appends for it.
\<close>

record request =
  "method" :: string
  url :: string
  headers :: "string \<rightharpoonup> string"
  chunks :: "string list"

datatype js_error = Error string

text \<open>
  What the handler calls and the source file does not define: \<^verbatim>\<open>JSON.parse\<close> (\<open>None\<close>
  when it throws a SyntaxError) and the two imported collaborators, whose promise is
  rejected (\<open>Inl\<close>) or fulfilled with a JSON value (\<open>Inr\<close>).
\<close>

record externals =
  JSON_parse :: "string \<Rightarrow> json option"
  fetchPlans :: "json \<Rightarrow> js_error + json"
  generateClosingScript :: "json \<Rightarrow> js_error + json"

text \<open>
  A run of the handler is the list of its effects, in program order: the calls on the
  response object \<^verbatim>\<open>res\<close>, the calls of the collaborators, and \<^verbatim>\<open>console.error\<close>.
  The response object is threaded through the functions as the trace so far. A header
  value is a string or, for \<^verbatim>\<open>Content-Length\<close>, the number the source passes.
\<close>

datatype hval = HStr string | HNum nat

datatype event =
    SetHeader string hval
  | WriteHead nat "(string \<times> hval) list"
  | End "string option"
  | FetchPlans json
  | GenerateClosingScript json
  | ConsoleError js_error

type_synonym trace = "event list"

definition setHeader :: "trace \<Rightarrow> string \<Rightarrow> hval \<Rightarrow> trace" where
  "setHeader res name v = res @ [SetHeader name v]"

definition writeHead :: "trace \<Rightarrow> nat \<Rightarrow> (string \<times> hval) list \<Rightarrow> trace" where
  "writeHead res st hs = res @ [WriteHead st hs]"

definition end_response :: "trace \<Rightarrow> string option \<Rightarrow> trace" where
  "end_response res data = res @ [End data]"

definition console_error :: "trace \<Rightarrow> js_error \<Rightarrow> trace" where
  "console_error res err = res @ [ConsoleError err]"

text \<open>The operator \<^verbatim>\<open>||\<close> on a string that may be undefined: both undefined and the
  empty string are falsy.\<close>

definition orElse :: "string option \<Rightarrow> string \<Rightarrow> string" where
  "orElse v d = (case v of None \<Rightarrow> d | Some s \<Rightarrow> if s = [] then d else s)"

subsection \<open>The source functions\<close>

definition sendJson :: "trace \<Rightarrow> nat \<Rightarrow> json \<Rightarrow> trace" where
  "sendJson res st payload =
     (let body = stringify payload;
          res = writeHead res st
                  [(''Content-Type'', HStr ''application/json''),
                   (''Content-Length'', HNum (byteLength body))]
      in end_response res (Some body))"

definition setCors :: "request \<Rightarrow> trace \<Rightarrow> trace" where
  "setCors req res =
     (let origin = orElse (headers req ''origin'') [];
          isSunfire = test sunfire_re origin;
          isLocal = test local_re origin;
          isExtension = startsWith origin ''chrome-extension://'';
          res = (if isSunfire \<or> isLocal \<or> isExtension
                 then setHeader (setHeader res ''Access-Control-Allow-Origin'' (HStr origin))
                        ''Vary'' (HStr ''Origin'')
                 else res);
          res = setHeader res ''Access-Control-Allow-Methods'' (HStr ''GET, POST, OPTIONS'');
          res = setHeader res ''Access-Control-Allow-Headers''
                  (HStr ''Content-Type, Authorization'')
      in setHeader res ''Access-Control-Max-Age'' (HStr ''86400''))"

text \<open>
  The second \<^verbatim>\<open>try\<close> block of the \<^verbatim>\<open>end\<close> callback: \<open>Inr\<close> is the trace when the block
  completes, \<open>Inl\<close> the trace up to the rejected \<^verbatim>\<open>await\<close> together with what was thrown.
\<close>

definition dispatch :: "externals \<Rightarrow> request \<Rightarrow> trace \<Rightarrow> json \<Rightarrow> (trace \<times> js_error) + trace" where
  "dispatch ext req res payload =
     (if url req = ''/plans'' \<or> url req = ''/api/plans'' then
        (case fetchPlans ext payload of
           Inl err \<Rightarrow> Inl (res @ [FetchPlans payload], err)
         | Inr plans \<Rightarrow> Inr (sendJson (res @ [FetchPlans payload]) 200 plans))
      else if url req = ''/ai-recommend'' \<or> url req = ''/api/recommend'' then
        (case generateClosingScript ext payload of
           Inl err \<Rightarrow> Inl (res @ [GenerateClosingScript payload], err)
         | Inr result \<Rightarrow> Inr (sendJson (res @ [GenerateClosingScript payload]) 200 result))
      else Inr (sendJson res 404 (JObj [(''error'', JStr ''Not found'')])))"

text \<open>The \<^verbatim>\<open>end\<close> callback, on the body collected from the chunks.\<close>

definition on_end :: "externals \<Rightarrow> request \<Rightarrow> trace \<Rightarrow> string \<Rightarrow> trace" where
  "on_end ext req res body =
     (case JSON_parse ext (orElse (Some body) ''{}'') of
        None \<Rightarrow> sendJson res 400 (JObj [(''error'', JStr ''Invalid JSON'')])
      | Some payload \<Rightarrow>
          (case dispatch ext req res payload of
             Inr res' \<Rightarrow> res'
           | Inl (res', err) \<Rightarrow>
               sendJson (console_error res' err) 500
                 (JObj [(''error'', JStr ''Internal server error'')])))"

text \<open>The request handler given to \<^verbatim>\<open>http.createServer\<close>.\<close>

definition handler :: "externals \<Rightarrow> request \<Rightarrow> trace" where
  "handler ext req =
     (let res = setCors req [] in
      if method req = ''OPTIONS'' then end_response (writeHead res 204 []) None
      else if method req = ''GET'' \<and> (url req = ''/api/health'' \<or> url req = ''/health'') then
        end_response (writeHead res 200 [(''Content-Type'', HStr ''application/json'')])
          (Some (stringify (JObj [(''status'', JStr ''ok'')])))
      else if method req \<noteq> ''POST'' then
        sendJson res 404 (JObj [(''error'', JStr ''Not found'')])
      else on_end ext req res (foldl (@) [] (chunks req)))"

subsection \<open>The response as the handler writes it\<close>

text \<open>
  \<^verbatim>\<open>http.ServerResponse\<close>, replayed over a trace. Headers set with \<^verbatim>\<open>setHeader\<close> are kept
  until the head is written; \<^verbatim>\<open>writeHead\<close> adds its own and sends the status line;
  \<^verbatim>\<open>end\<close> takes the data and finishes the response (after an implicit head with status
  200 when none was written). Setting a header or writing a head once the head is sent
  throws in Node, and any call on a finished response would be a second answer: both
  leave the connection \<open>Broken\<close>. The header names of this program differ also when
  case is ignored, so they are keyed as written. In a \<open>response\<close> the field \<open>out_body\<close>
  is the data given to \<^verbatim>\<open>end\<close>; whether Node sends it depends on the request and the
  status, see \<open>received\<close> below.
\<close>

record response =
  status :: nat
  out_headers :: "string \<rightharpoonup> hval"
  out_body :: "string option"

datatype conn =
    Open "string \<rightharpoonup> hval"
  | HeadSent nat "string \<rightharpoonup> hval"
  | Finished response
  | Broken

fun res_step :: "conn \<Rightarrow> event \<Rightarrow> conn" where
  "res_step c (FetchPlans p) = c"
| "res_step c (GenerateClosingScript p) = c"
| "res_step c (ConsoleError e) = c"
| "res_step (Open hs) (SetHeader n v) = Open (hs(n \<mapsto> v))"
| "res_step (Open hs) (WriteHead st extra) =
     HeadSent st (foldl (\<lambda>m kv. m(fst kv \<mapsto> snd kv)) hs extra)"
| "res_step (Open hs) (End data) =
     Finished \<lparr>status = 200, out_headers = hs, out_body = data\<rparr>"
| "res_step (HeadSent st hs) (End data) =
     Finished \<lparr>status = st, out_headers = hs, out_body = data\<rparr>"
| "res_step c e = Broken"

definition response_of :: "trace \<Rightarrow> response option" where
  "response_of t = (case foldl res_step (Open Map.empty) t of Finished r \<Rightarrow> Some r | _ \<Rightarrow> None)"

fun is_WriteHead :: "event \<Rightarrow> bool" where
  "is_WriteHead (WriteHead st hs) = True"
| "is_WriteHead e = False"

fun is_End :: "event \<Rightarrow> bool" where
  "is_End (End data) = True"
| "is_End e = False"

fun is_SetHeader :: "event \<Rightarrow> bool" where
  "is_SetHeader (SetHeader n v) = True"
| "is_SetHeader e = False"

fun is_collaborator_call :: "event \<Rightarrow> bool" where
  "is_collaborator_call (FetchPlans p) = True"
| "is_collaborator_call (GenerateClosingScript p) = True"
| "is_collaborator_call e = False"

definition status_of :: "trace \<Rightarrow> nat option" where
  "status_of t = map_option status (response_of t)"

definition header_of :: "trace \<Rightarrow> string \<Rightarrow> hval option option" where
  "header_of t name = map_option (\<lambda>r. out_headers r name) (response_of t)"

definition body_of :: "trace \<Rightarrow> string option option" where
  "body_of t = map_option out_body (response_of t)"

subsection \<open>What the client receives\<close>

text \<open>
  Node sends the status line and the headers as they were written. It sends the data
  given to \<^verbatim>\<open>end\<close> as the body unless the response has no body: the response to a
  request with method HEAD, and a response with status 204, 304 or 100 to 199. The data
  of such a response is discarded, and the headers (a Content-Length among them) are sent
  all the same.
\<close>

definition has_body :: "string \<Rightarrow> nat \<Rightarrow> bool" where
  "has_body m st = (m \<noteq> ''HEAD'' \<and> st \<noteq> 204 \<and> st \<noteq> 304 \<and> (st < 100 \<or> 199 < st))"

definition received :: "request \<Rightarrow> response \<Rightarrow> response" where
  "received req r = (if has_body (method req) (status r) then r else r\<lparr>out_body := None\<rparr>)"

definition received_of :: "request \<Rightarrow> trace \<Rightarrow> response option" where
  "received_of req t = map_option (received req) (response_of t)"

definition received_body :: "request \<Rightarrow> trace \<Rightarrow> string option option" where
  "received_body req t = map_option out_body (received_of req t)"

subsection \<open>Names for parts of the source functions\<close>

text \<open>The first line of \<^verbatim>\<open>setCors\<close>, the condition of its \<^verbatim>\<open>if\<close>, and the headers it
  leaves on the response.\<close>

definition origin_of :: "request \<Rightarrow> string" where
  "origin_of req = orElse (headers req ''origin'') []"

definition origin_allowed :: "string \<Rightarrow> bool" where
  "origin_allowed origin =
     (test sunfire_re origin \<or> test local_re origin \<or> startsWith origin ''chrome-extension://'')"

definition cors_headers :: "request \<Rightarrow> string \<rightharpoonup> hval" where
  "cors_headers req =
     (if origin_allowed (origin_of req)
      then [''Access-Control-Allow-Origin'' \<mapsto> HStr (origin_of req),
            ''Vary'' \<mapsto> HStr ''Origin'']
      else Map.empty)
     (''Access-Control-Allow-Methods'' \<mapsto> HStr ''GET, POST, OPTIONS'',
      ''Access-Control-Allow-Headers'' \<mapsto> HStr ''Content-Type, Authorization'',
      ''Access-Control-Max-Age'' \<mapsto> HStr ''86400'')"

text \<open>The body once every chunk has arrived, and the text handed to \<^verbatim>\<open>JSON.parse\<close> in
  the \<^verbatim>\<open>end\<close> callback.\<close>

definition request_body :: "request \<Rightarrow> string" where
  "request_body req = concat (chunks req)"

definition parsed_text :: "request \<Rightarrow> string" where
  "parsed_text req = orElse (Some (request_body req)) ''{}''"

definition plans_path :: "string \<Rightarrow> bool" where
  "plans_path u = (u = ''/plans'' \<or> u = ''/api/plans'')"

definition recommend_path :: "string \<Rightarrow> bool" where
  "recommend_path u = (u = ''/ai-recommend'' \<or> u = ''/api/recommend'')"

definition health_path :: "string \<Rightarrow> bool" where
  "health_path u = (u = ''/api/health'' \<or> u = ''/health'')"

subsection \<open>The origin patterns in the words of the specification\<close>

text \<open>
  The three patterns as the specification describes them, each on the whole origin:
  \<^verbatim>\<open>https://\<close>, any number of labels each followed by a dot, \<^verbatim>\<open>sunfirematrix.com\<close>;
  \<^verbatim>\<open>http://localhost\<close> with an optional colon and port; the prefix
  \<^verbatim>\<open>chrome-extension://\<close>. The first two ignore the case of ASCII letters.
\<close>

definition lower :: "char \<Rightarrow> char" where
  "lower c =
     (let n = (of_char c :: nat) in if 65 \<le> n \<and> n \<le> 90 then char_of (n + 32) else c)"

definition is_digit :: "char \<Rightarrow> bool" where
  "is_digit c = (48 \<le> (of_char c :: nat) \<and> (of_char c :: nat) \<le> 57)"

definition is_label :: "string \<Rightarrow> bool" where
  "is_label l = (l \<noteq> [] \<and> CHR ''.'' \<notin> set l)"

definition spec_sunfire :: "string \<Rightarrow> bool" where
  "spec_sunfire origin =
     (\<exists>labels. list_all is_label labels \<and>
        map lower origin =
          ''https://'' @ concat (map (\<lambda>l. l @ ''.'') labels) @ ''sunfirematrix.com'')"

definition spec_localhost :: "string \<Rightarrow> bool" where
  "spec_localhost origin =
     (map lower origin = ''http://localhost'' \<or>
      (\<exists>port. port \<noteq> [] \<and> list_all is_digit port \<and>
         map lower origin = ''http://localhost:'' @ port))"

definition spec_extension :: "string \<Rightarrow> bool" where
  "spec_extension origin = prefix ''chrome-extension://'' origin"

definition spec_origin_match :: "string \<Rightarrow> bool" where
  "spec_origin_match origin =
     (spec_sunfire origin \<or> spec_localhost origin \<or> spec_extension origin)"

subsection \<open>Stand-ins for the runtime and the collaborators\<close>

text \<open>
  Concrete externals at which the theorems below are instantiated: a \<^verbatim>\<open>JSON.parse\<close> that
  knows the texts \<^verbatim>\<open>{}\<close> and \<^verbatim>\<open>[]\<close> and rejects every other text, a plan fetcher that
  answers with an empty list, and a script generator that is rejected. In
  \<open>failing_externals\<close> the plan fetcher is rejected too.
\<close>

definition parse_stub :: "string \<Rightarrow> json option" where
  "parse_stub s = (if s = ''{}'' then Some (JObj []) else if s = ''[]'' then Some (JArr []) else None)"

definition stub_externals :: externals where
  "stub_externals =
     \<lparr>JSON_parse = parse_stub,
      fetchPlans = (\<lambda>payload. Inr (JArr [])),
      generateClosingScript = (\<lambda>payload. Inl (Error ''upstream timeout''))\<rparr>"

definition failing_externals :: externals where
  "failing_externals =
     \<lparr>JSON_parse = parse_stub,
      fetchPlans = (\<lambda>payload. Inl (Error ''ECONNREFUSED 10.0.0.7:5432'')),
      generateClosingScript = (\<lambda>payload. Inl (Error ''upstream timeout''))\<rparr>"

subsection \<open>The shape of a run\<close>

text \<open>
  Events that do not touch the response object, and the runs that, after the events
  \<open>pre\<close>, consist of such events followed by one head and one end, in this order and with
  nothing after them.
\<close>

fun is_quiet :: "event \<Rightarrow> bool" where
  "is_quiet (FetchPlans p) = True"
| "is_quiet (GenerateClosingScript p) = True"
| "is_quiet (ConsoleError e) = True"
| "is_quiet e = False"

definition answers_once_after :: "trace \<Rightarrow> trace \<Rightarrow> bool" where
  "answers_once_after pre t =
     (take (length pre) t = pre \<and>
      (case rev (drop (length pre) t) of
         End data # WriteHead st hs # others \<Rightarrow> list_all is_quiet others
       | _ \<Rightarrow> False))"

text \<open>The response that \<^verbatim>\<open>sendJson\<close> leaves after \<^verbatim>\<open>setCors\<close>.\<close>

definition json_response :: "request \<Rightarrow> nat \<Rightarrow> json \<Rightarrow> response" where
  "json_response req st payload =
     \<lparr>status = st,
      out_headers = (cors_headers req)
        (''Content-Type'' \<mapsto> HStr ''application/json'',
         ''Content-Length'' \<mapsto> HNum (byteLength (stringify payload))),
      out_body = Some (stringify payload)\<rparr>"

section \<open>Properties\<close>

subsection \<open>Runs of the helpers and of the handler\<close>

lemma foldl_append_concat: "foldl (@) acc xs = acc @ concat xs"
  by (induction xs arbitrary: acc) simp_all

lemma setCors_append: "setCors req res = res @ setCors req []"
  by (simp add: setCors_def Let_def setHeader_def)

lemma sendJson_append:
  "sendJson res st p =
     res @ [WriteHead st [(''Content-Type'', HStr ''application/json''),
                          (''Content-Length'', HNum (length (stringify p)))],
            End (Some (stringify p))]"
  by (simp add: sendJson_def Let_def writeHead_def end_response_def byteLength_def)

lemma replay_setCors:
  "foldl res_step (Open Map.empty) (setCors req []) = Open (cors_headers req)"
  by (simp add: setCors_def Let_def setHeader_def cors_headers_def origin_of_def
      origin_allowed_def)

lemma setCors_only_SetHeader: "list_all is_SetHeader (setCors req [])"
  by (simp add: setCors_def Let_def setHeader_def)

lemma stringify_not_found:
  \<open>stringify (JObj [(''error'', JStr ''Not found'')]) = ''{"error":"Not found"}''\<close>
  by (simp add: quoteJSONString_def quote_char_def)


lemma stringify_internal:
  \<open>stringify (JObj [(''error'', JStr ''Internal server error'')]) =
     ''{"error":"Internal server error"}''\<close>
  by (simp add: quoteJSONString_def quote_char_def)

lemma stringify_ok:
  \<open>stringify (JObj [(''status'', JStr ''ok'')]) = ''{"status":"ok"}''\<close>
  by (simp add: quoteJSONString_def quote_char_def)

text \<open>The four ways out of the handler, as traces after the calls of \<^verbatim>\<open>setCors\<close>.\<close>

lemma handler_OPTIONS:
  "method req = ''OPTIONS'' \<Longrightarrow>
   handler ext req = setCors req [] @ [WriteHead 204 [], End None]"
  by (simp add: handler_def Let_def writeHead_def end_response_def)

lemma handler_health:
  "method req = ''GET'' \<Longrightarrow> health_path (url req) \<Longrightarrow>
   handler ext req = setCors req [] @
     [WriteHead 200 [(''Content-Type'', HStr ''application/json'')],
      End (Some (stringify (JObj [(''status'', JStr ''ok'')])))]"
  by (auto simp add: handler_def Let_def writeHead_def end_response_def health_path_def)

lemma handler_other:
  "method req \<noteq> ''OPTIONS'' \<Longrightarrow> method req \<noteq> ''POST'' \<Longrightarrow>
   \<not> (method req = ''GET'' \<and> health_path (url req)) \<Longrightarrow>
   handler ext req = sendJson (setCors req []) 404 (JObj [(''error'', JStr ''Not found'')])"
  by (auto simp add: handler_def Let_def health_path_def)

lemma handler_POST:
  "method req = ''POST'' \<Longrightarrow>
   handler ext req = on_end ext req (setCors req []) (request_body req)"
  by (simp add: handler_def Let_def foldl_append_concat request_body_def)

lemma on_end_cases:
  "on_end ext req res body =
     (case JSON_parse ext (orElse (Some body) ''{}'') of
        None \<Rightarrow> sendJson res 400 (JObj [(''error'', JStr ''Invalid JSON'')])
      | Some payload \<Rightarrow>
          if plans_path (url req) then
            (case fetchPlans ext payload of
               Inr plans \<Rightarrow> sendJson (res @ [FetchPlans payload]) 200 plans
             | Inl err \<Rightarrow> sendJson (res @ [FetchPlans payload, ConsoleError err]) 500
                            (JObj [(''error'', JStr ''Internal server error'')]))
          else if recommend_path (url req) then
            (case generateClosingScript ext payload of
               Inr result \<Rightarrow> sendJson (res @ [GenerateClosingScript payload]) 200 result
             | Inl err \<Rightarrow>
                 sendJson (res @ [GenerateClosingScript payload, ConsoleError err]) 500
                   (JObj [(''error'', JStr ''Internal server error'')]))
          else sendJson res 404 (JObj [(''error'', JStr ''Not found'')]))"
  by (simp add: on_end_def dispatch_def console_error_def plans_path_def recommend_path_def
      split: option.splits sum.splits)

lemma on_end_answers_once: "answers_once_after res (on_end ext req res body)"
  by (simp add: answers_once_after_def on_end_cases sendJson_append
      split: option.splits sum.splits)

lemma method_cases [case_names preflight health post other]:
  assumes "method req = ''OPTIONS'' \<Longrightarrow> P"
    and "method req = ''GET'' \<Longrightarrow> health_path (url req) \<Longrightarrow> P"
    and "method req = ''POST'' \<Longrightarrow> P"
    and "method req \<noteq> ''OPTIONS'' \<Longrightarrow> method req \<noteq> ''POST'' \<Longrightarrow>
         \<not> (method req = ''GET'' \<and> health_path (url req)) \<Longrightarrow> P"
  shows P
  using assms by blast

lemma handler_answers_once: "answers_once_after (setCors req []) (handler ext req)"
proof (cases req rule: method_cases)
  case preflight
  then show ?thesis by (simp add: handler_OPTIONS answers_once_after_def)
next
  case health
  then show ?thesis by (simp add: handler_health answers_once_after_def)
next
  case post
  then show ?thesis by (simp add: handler_POST on_end_answers_once)
next
  case other
  then show ?thesis by (simp add: handler_other answers_once_after_def sendJson_append)
qed

lemma answers_once_shape:
  assumes "answers_once_after pre t"
  shows "\<exists>others st hs data.
           t = pre @ others @ [WriteHead st hs, End data] \<and> list_all is_quiet others"
proof -
  from assms have pre: "take (length pre) t = pre"
    by (simp add: answers_once_after_def)
  from assms obtain data st hs rothers where
    r: "rev (drop (length pre) t) = End data # WriteHead st hs # rothers"
    and q: "list_all is_quiet rothers"
    by (auto simp add: answers_once_after_def split: list.splits event.splits)
  from r have "drop (length pre) t = rev rothers @ [WriteHead st hs, End data]"
    by (metis rev_rev_ident rev.simps(2) append_Nil append_Cons append_assoc)
  with pre have "t = pre @ rev rothers @ [WriteHead st hs, End data]"
    by (metis append_take_drop_id)
  moreover from q have "list_all is_quiet (rev rothers)"
    by (simp add: list_all_iff)
  ultimately show ?thesis by blast
qed

lemma replay_quiet: "list_all is_quiet es \<Longrightarrow> foldl res_step c es = c"
proof (induction es)
  case Nil
  then show ?case by simp
next
  case (Cons e es)
  then show ?case by (cases e) simp_all
qed

lemma filter_quiet:
  "list_all is_quiet es \<Longrightarrow>
   filter is_WriteHead es = [] \<and> filter is_End es = [] \<and> filter is_SetHeader es = []"
proof (induction es)
  case Nil
  then show ?case by simp
next
  case (Cons e es)
  then show ?case by (cases e) simp_all
qed

lemma filter_setCors:
  "filter is_WriteHead (setCors req []) = [] \<and> filter is_End (setCors req []) = []"
  by (simp add: setCors_def Let_def setHeader_def)

lemma setCors_no_call: "\<not> list_ex is_collaborator_call (setCors req [])"
  by (simp add: setCors_def Let_def setHeader_def)

lemma setCors_events:
  "SetHeader ''Access-Control-Allow-Methods'' (HStr ''GET, POST, OPTIONS'')
     \<in> set (setCors req [])"
  "SetHeader ''Access-Control-Allow-Headers'' (HStr ''Content-Type, Authorization'')
     \<in> set (setCors req [])"
  "SetHeader ''Access-Control-Max-Age'' (HStr ''86400'') \<in> set (setCors req [])"
  by (simp_all add: setCors_def Let_def setHeader_def)

lemma handler_prefix: "\<exists>rest. handler ext req = setCors req [] @ rest"
  using answers_once_shape [OF handler_answers_once] by blast


lemma parsed_text_nonempty: "request_body req \<noteq> [] \<Longrightarrow> parsed_text req = request_body req"
  by (simp add: parsed_text_def orElse_def)

lemma paths_disjoint: "plans_path u \<Longrightarrow> \<not> recommend_path u"
  by (auto simp add: plans_path_def recommend_path_def)

lemma handler_POST_events:
  "method req = ''POST'' \<Longrightarrow>
   handler ext req =
     (case JSON_parse ext (parsed_text req) of
        None \<Rightarrow> sendJson (setCors req []) 400 (JObj [(''error'', JStr ''Invalid JSON'')])
      | Some payload \<Rightarrow>
          if plans_path (url req) then
            (case fetchPlans ext payload of
               Inr plans \<Rightarrow> sendJson (setCors req [] @ [FetchPlans payload]) 200 plans
             | Inl err \<Rightarrow>
                 sendJson (setCors req [] @ [FetchPlans payload, ConsoleError err]) 500
                   (JObj [(''error'', JStr ''Internal server error'')]))
          else if recommend_path (url req) then
            (case generateClosingScript ext payload of
               Inr result \<Rightarrow>
                 sendJson (setCors req [] @ [GenerateClosingScript payload]) 200 result
             | Inl err \<Rightarrow>
                 sendJson (setCors req [] @ [GenerateClosingScript payload, ConsoleError err])
                   500 (JObj [(''error'', JStr ''Internal server error'')]))
          else sendJson (setCors req []) 404 (JObj [(''error'', JStr ''Not found'')]))"
  by (simp add: handler_POST on_end_cases parsed_text_def)

subsection \<open>The response of each way out\<close>

lemma cors_headers_content [simp]:
  "cors_headers req ''Content-Type'' = None"
  "cors_headers req ''Content-Length'' = None"
  by (simp_all add: cors_headers_def)

lemma cors_headers_fixed:
  "cors_headers req ''Access-Control-Allow-Methods'' = Some (HStr ''GET, POST, OPTIONS'')"
  "cors_headers req ''Access-Control-Allow-Headers''
     = Some (HStr ''Content-Type, Authorization'')"
  "cors_headers req ''Access-Control-Max-Age'' = Some (HStr ''86400'')"
  by (simp_all add: cors_headers_def)

lemma cors_headers_origin:
  "cors_headers req ''Access-Control-Allow-Origin'' =
     (if origin_allowed (origin_of req) then Some (HStr (origin_of req)) else None)"
  "cors_headers req ''Vary'' =
     (if origin_allowed (origin_of req) then Some (HStr ''Origin'') else None)"
  by (simp_all add: cors_headers_def)

lemma response_of_sendJson:
  "list_all is_quiet others \<Longrightarrow>
   response_of (sendJson (setCors req [] @ others) st p) = Some (json_response req st p)"
  by (simp add: response_of_def sendJson_append replay_setCors replay_quiet json_response_def
      byteLength_def)

lemma response_of_sendJson_direct:
  "response_of (sendJson (setCors req []) st p) = Some (json_response req st p)"
  using response_of_sendJson [of "[]" req st p] by simp

lemma response_preflight:
  "method req = ''OPTIONS'' \<Longrightarrow>
   response_of (handler ext req) =
     Some \<lparr>status = 204, out_headers = cors_headers req, out_body = None\<rparr>"
  by (simp add: handler_OPTIONS response_of_def replay_setCors)

lemma response_health:
  "method req = ''GET'' \<Longrightarrow> health_path (url req) \<Longrightarrow>
   response_of (handler ext req) =
     Some \<lparr>status = 200,
           out_headers = (cors_headers req)(''Content-Type'' \<mapsto> HStr ''application/json''),
           out_body = Some (stringify (JObj [(''status'', JStr ''ok'')]))\<rparr>"
  by (simp add: handler_health response_of_def replay_setCors del: stringify.simps)

lemma response_other:
  "method req \<noteq> ''OPTIONS'' \<Longrightarrow> method req \<noteq> ''POST'' \<Longrightarrow>
   \<not> (method req = ''GET'' \<and> health_path (url req)) \<Longrightarrow>
   response_of (handler ext req) =
     Some (json_response req 404 (JObj [(''error'', JStr ''Not found'')]))"
  by (simp add: handler_other response_of_sendJson_direct del: stringify.simps)

lemma response_POST:
  "method req = ''POST'' \<Longrightarrow>
   response_of (handler ext req) =
     (case JSON_parse ext (parsed_text req) of
        None \<Rightarrow> Some (json_response req 400 (JObj [(''error'', JStr ''Invalid JSON'')]))
      | Some payload \<Rightarrow>
          if plans_path (url req) then
            (case fetchPlans ext payload of
               Inr plans \<Rightarrow> Some (json_response req 200 plans)
             | Inl err \<Rightarrow>
                 Some (json_response req 500
                         (JObj [(''error'', JStr ''Internal server error'')])))
          else if recommend_path (url req) then
            (case generateClosingScript ext payload of
               Inr result \<Rightarrow> Some (json_response req 200 result)
             | Inl err \<Rightarrow>
                 Some (json_response req 500
                         (JObj [(''error'', JStr ''Internal server error'')])))
          else Some (json_response req 404 (JObj [(''error'', JStr ''Not found'')])))"
  by (simp add: handler_POST_events response_of_sendJson response_of_sendJson_direct
      split: option.splits sum.splits del: stringify.simps)

lemma response_json:
  assumes "method req \<noteq> ''OPTIONS''" and "\<not> (method req = ''GET'' \<and> health_path (url req))"
  shows "\<exists>st p. (st = 200 \<or> st = 400 \<or> st = 404 \<or> st = 500) \<and>
           response_of (handler ext req) = Some (json_response req st p)"
proof (cases "method req = ''POST''")
  case True
  then show ?thesis
    by (fastforce simp add: response_POST split: option.splits sum.splits
        simp del: stringify.simps)
next
  case False
  with assms have "response_of (handler ext req) =
      Some (json_response req 404 (JObj [(''error'', JStr ''Not found'')]))"
    by (simp add: response_other)
  then show ?thesis by blast
qed

lemma handler_headers_cors:
  assumes "name \<noteq> ''Content-Type''" and "name \<noteq> ''Content-Length''"
  shows "\<exists>r. response_of (handler ext req) = Some r \<and>
              out_headers r name = cors_headers req name"
proof (cases req rule: method_cases)
  case preflight
  then show ?thesis by (simp add: response_preflight)
next
  case health
  with assms show ?thesis by (simp add: response_health del: stringify.simps)
next
  case post
  then obtain st p where "response_of (handler ext req) = Some (json_response req st p)"
    using response_json [of req ext] by auto
  with assms show ?thesis by (simp add: json_response_def)
next
  case other
  then obtain st p where "response_of (handler ext req) = Some (json_response req st p)"
    using response_json [of req ext] by auto
  with assms show ?thesis by (simp add: json_response_def)
qed

subsection \<open>The routes that answer with status 200\<close>

lemma health_check:
  assumes "method req = ''GET''" and "url req = ''/health'' \<or> url req = ''/api/health''"
  shows \<open>status_of (handler ext req) = Some 200 \<and>
         body_of (handler ext req) = Some (Some ''{"status":"ok"}'')\<close>
proof -
  from assms(2) have "health_path (url req)"
    by (auto simp add: health_path_def)
  with assms(1) show ?thesis
    by (simp add: status_of_def body_of_def response_health stringify_ok
        del: stringify.simps)
qed

lemma plans_fetched:
  assumes "method req = ''POST''" and "url req = ''/plans'' \<or> url req = ''/api/plans''"
    and "JSON_parse ext (parsed_text req) = Some payload"
    and "fetchPlans ext payload = Inr plans"
  shows "handler ext req = sendJson (setCors req [] @ [FetchPlans payload]) 200 plans \<and>
         status_of (handler ext req) = Some 200 \<and>
         body_of (handler ext req) = Some (Some (stringify plans))"
proof -
  from assms(2) have p: "plans_path (url req)"
    by (auto simp add: plans_path_def)
  with assms have "handler ext req = sendJson (setCors req [] @ [FetchPlans payload]) 200 plans"
    by (simp add: handler_POST_events)
  moreover from assms p have "response_of (handler ext req) = Some (json_response req 200 plans)"
    by (simp add: response_POST)
  ultimately show ?thesis
    by (simp add: status_of_def body_of_def json_response_def)
qed

lemma script_generated:
  assumes "method req = ''POST''"
    and "url req = ''/ai-recommend'' \<or> url req = ''/api/recommend''"
    and "JSON_parse ext (parsed_text req) = Some payload"
    and "generateClosingScript ext payload = Inr result"
  shows "handler ext req =
           sendJson (setCors req [] @ [GenerateClosingScript payload]) 200 result \<and>
         status_of (handler ext req) = Some 200 \<and>
         body_of (handler ext req) = Some (Some (stringify result))"
proof -
  from assms(2) have p: "recommend_path (url req)" and np: "\<not> plans_path (url req)"
    by (auto simp add: plans_path_def recommend_path_def)
  with assms have
    "handler ext req = sendJson (setCors req [] @ [GenerateClosingScript payload]) 200 result"
    by (simp add: handler_POST_events)
  moreover from assms p np
  have "response_of (handler ext req) = Some (json_response req 200 result)"
    by (simp add: response_POST)
  ultimately show ?thesis
    by (simp add: status_of_def body_of_def json_response_def)
qed

subsection \<open>Content-Type and Content-Length on every path\<close>

text \<open>
  A response with status 204 carries neither header and is ended without data. Every
  other response carries Content-Type: application/json; the answer to the health check
  carries no Content-Length; every other one is ended with its serialized body and
  carries a Content-Length equal to the byte length of that body.
\<close>

lemma content_headers:
  "\<exists>r. response_of (handler ext req) = Some r \<and>
     (status r = 204 \<longrightarrow>
        out_headers r ''Content-Type'' = None \<and> out_headers r ''Content-Length'' = None \<and>
        out_body r = None) \<and>
     (status r \<noteq> 204 \<longrightarrow>
        out_headers r ''Content-Type'' = Some (HStr ''application/json'') \<and>
        (if method req = ''GET'' \<and> (url req = ''/api/health'' \<or> url req = ''/health'')
         then out_headers r ''Content-Length'' = None
         else \<exists>b. out_body r = Some b \<and>
                out_headers r ''Content-Length'' = Some (HNum (byteLength b))))"
proof (cases req rule: method_cases)
  case preflight
  then show ?thesis by (simp add: response_preflight)
next
  case health
  then show ?thesis by (simp add: response_health health_path_def del: stringify.simps)
next
  case post
  then obtain st p where "st = 200 \<or> st = 400 \<or> st = 404 \<or> st = 500"
    and "response_of (handler ext req) = Some (json_response req st p)"
    using response_json [of req ext] by auto
  with post show ?thesis by (auto simp add: json_response_def)
next
  case other
  then obtain st p where "st = 200 \<or> st = 400 \<or> st = 404 \<or> st = 500"
    and "response_of (handler ext req) = Some (json_response req st p)"
    using response_json [of req ext] by auto
  with other show ?thesis by (auto simp add: json_response_def health_path_def)
qed

lemma content_headers_example:
  "status_of
     (handler stub_externals
        \<lparr>method = ''POST'', url = ''/api/plans'', headers = Map.empty, chunks = []\<rparr>)
     = Some 200 \<and>
   header_of
     (handler stub_externals
        \<lparr>method = ''POST'', url = ''/api/plans'', headers = Map.empty, chunks = []\<rparr>)
     ''Content-Type''
     = Some (Some (HStr ''application/json'')) \<and>
   header_of
     (handler stub_externals
        \<lparr>method = ''POST'', url = ''/api/plans'', headers = Map.empty, chunks = []\<rparr>)
     ''Content-Length''
     = Some (Some (HNum 2)) \<and>
   body_of
     (handler stub_externals
        \<lparr>method = ''POST'', url = ''/api/plans'', headers = Map.empty, chunks = []\<rparr>)
     = Some (Some ''[]'')"
proof -
  let ?req = "\<lparr>method = ''POST'', url = ''/api/plans'', headers = Map.empty, chunks = []\<rparr>"
  have e: "status_of (handler stub_externals ?req) = Some 200"
    "body_of (handler stub_externals ?req) = Some (Some ''[]'')"
    by (simp_all add: status_of_def body_of_def response_POST parsed_text_def
        request_body_def orElse_def stub_externals_def parse_stub_def plans_path_def
        json_response_def)
  from content_headers [of stub_externals ?req] obtain r where
    r: "response_of (handler stub_externals ?req) = Some r"
    and h: "status r \<noteq> 204 \<longrightarrow>
        out_headers r ''Content-Type'' = Some (HStr ''application/json'') \<and>
        (\<exists>b. out_body r = Some b \<and>
               out_headers r ''Content-Length'' = Some (HNum (byteLength b)))"
    by auto
  from e r have "status r = 200" and "out_body r = Some ''[]''"
    by (simp_all add: status_of_def body_of_def)
  with h r e show ?thesis
    by (auto simp add: header_of_def byteLength_def)
qed

subsection \<open>The matcher decides the language of a pattern\<close>

inductive_cases in_lang_FailE: "in_lang Fail w"
inductive_cases in_lang_EmptyE: "in_lang Empty w"
inductive_cases in_lang_OneE: "in_lang (One a) w"
inductive_cases in_lang_SeqE: "in_lang (Seq r s) w"
inductive_cases in_lang_AltE: "in_lang (Alt r s) w"

lemma in_lang_Fail [simp]: "\<not> in_lang Fail w"
  by (auto elim: in_lang_FailE)

lemma in_lang_Empty [simp]: "in_lang Empty w \<longleftrightarrow> w = []"
  by (auto elim: in_lang_EmptyE intro: in_lang.Empty)

lemma in_lang_One [simp]: "in_lang (One a) w \<longleftrightarrow> (\<exists>c. w = [c] \<and> atom_matches a c)"
  by (auto elim: in_lang_OneE intro: in_lang.One)

lemma in_lang_Seq: "in_lang (Seq r s) w \<longleftrightarrow> (\<exists>u v. w = u @ v \<and> in_lang r u \<and> in_lang s v)"
  by (blast elim: in_lang_SeqE intro: in_lang.Seq)

lemma in_lang_Alt [simp]: "in_lang (Alt r s) w \<longleftrightarrow> in_lang r w \<or> in_lang s w"
  by (auto elim: in_lang_AltE intro: in_lang.AltL in_lang.AltR)

text \<open>A word of a starred pattern is a concatenation of words of the pattern.\<close>

lemma in_lang_Star_concat:
  "in_lang (Star r) w \<longleftrightarrow> (\<exists>ws. w = concat ws \<and> list_all (in_lang r) ws)"
proof
  assume "in_lang (Star r) w"
  then show "\<exists>ws. w = concat ws \<and> list_all (in_lang r) ws"
  proof (induction "Star r" w rule: in_lang.induct)
    case StarNil
    have "[] = concat [] \<and> list_all (in_lang r) []" by simp
    then show ?case by blast
  next
    case (StarStep u v)
    then obtain ws where "v = concat ws" and "list_all (in_lang r) ws" by blast
    then have "u @ v = concat (u # ws) \<and> list_all (in_lang r) (u # ws)"
      using StarStep.hyps(1) by simp
    then show ?case by blast
  qed
next
  assume "\<exists>ws. w = concat ws \<and> list_all (in_lang r) ws"
  then obtain ws where w: "w = concat ws" and a: "list_all (in_lang r) ws" by blast
  from a have "in_lang (Star r) (concat ws)"
    by (induction ws) (auto intro: in_lang.StarNil in_lang.StarStep)
  with w show "in_lang (Star r) w" by simp
qed

text \<open>The first non-empty factor of a non-empty word of a starred pattern.\<close>

lemma in_lang_Star_Cons:
  "in_lang (Star r) (c # w) \<longleftrightarrow> (\<exists>u v. w = u @ v \<and> in_lang r (c # u) \<and> in_lang (Star r) v)"
proof
  assume "in_lang (Star r) (c # w)"
  then show "\<exists>u v. w = u @ v \<and> in_lang r (c # u) \<and> in_lang (Star r) v"
  proof (induction "Star r" "c # w" rule: in_lang.induct)
    case (StarStep u v)
    show ?case
    proof (cases u)
      case Nil
      with StarStep show ?thesis by simp
    next
      case (Cons d u')
      with \<open>u @ v = c # w\<close> have "d = c" and "w = u' @ v" by simp_all
      with \<open>in_lang r u\<close> \<open>in_lang (Star r) v\<close> Cons show ?thesis by blast
    qed
  qed
next
  assume "\<exists>u v. w = u @ v \<and> in_lang r (c # u) \<and> in_lang (Star r) v"
  then obtain u v where "w = u @ v" "in_lang r (c # u)" "in_lang (Star r) v" by blast
  then show "in_lang (Star r) (c # w)"
    using in_lang.StarStep [of r "c # u" v] by simp
qed

lemma nullable_iff: "nullable r \<longleftrightarrow> in_lang r []"
  by (induction r) (auto simp add: in_lang_Seq intro: in_lang.StarNil)

lemma deriv_iff: "in_lang (deriv c r) w \<longleftrightarrow> in_lang r (c # w)"
proof (induction r arbitrary: w)
  case (Seq r s)
  show ?case
  proof
    assume "in_lang (deriv c (Seq r s)) w"
    then consider (left) u v where "w = u @ v" "in_lang (deriv c r) u" "in_lang s v"
      | (right) "nullable r" "in_lang (deriv c s) w"
      by (auto simp add: in_lang_Seq split: if_splits)
    then show "in_lang (Seq r s) (c # w)"
    proof cases
      case left
      then have "in_lang r (c # u)" by (simp add: Seq.IH)
      with left have "in_lang (Seq r s) ((c # u) @ v)" by (intro in_lang.Seq)
      with left show ?thesis by simp
    next
      case right
      then have "in_lang r []" and "in_lang s (c # w)"
        by (simp_all add: nullable_iff Seq.IH)
      then have "in_lang (Seq r s) ([] @ c # w)" by (intro in_lang.Seq)
      then show ?thesis by simp
    qed
  next
    assume "in_lang (Seq r s) (c # w)"
    then obtain u v where uv: "c # w = u @ v" "in_lang r u" "in_lang s v"
      by (auto simp add: in_lang_Seq)
    show "in_lang (deriv c (Seq r s)) w"
    proof (cases u)
      case Nil
      with uv have "nullable r" and "in_lang (deriv c s) w"
        by (simp_all add: nullable_iff Seq.IH)
      then show ?thesis by simp
    next
      case (Cons d u')
      with uv(1) have "d = c" and "w = u' @ v" by simp_all
      with uv(2) Cons have "w = u' @ v" and "in_lang (deriv c r) u'"
        by (simp_all add: Seq.IH)
      with uv(3) have "in_lang (Seq (deriv c r) s) w"
        by (auto simp add: in_lang_Seq)
      then show ?thesis by simp
    qed
  qed
next
  case (Star r)
  show ?case
    by (simp add: in_lang_Seq in_lang_Star_Cons Star.IH)
qed (auto)

lemma matches_iff: "matches r w \<longleftrightarrow> in_lang r w"
  by (induction w arbitrary: r) (simp_all add: nullable_iff deriv_iff)

subsection \<open>Characters and the languages of the two literals\<close>

lemma of_char_less: "(of_char c :: nat) < 256"
proof -
  have "(of_char c :: nat) mod 256 < 256" by simp
  then show ?thesis by (simp only: of_char_mod_256)
qed

lemma of_char_canonicalize:
  "(of_char (canonicalize c) :: nat) =
     (if 97 \<le> (of_char c :: nat) \<and> (of_char c :: nat) \<le> 122 then of_char c - 32 else of_char c)"
proof -
  have "(of_char c :: nat) - 32 < 256"
    using of_char_less [of c] by arith
  then show ?thesis by (simp add: canonicalize_def Let_def)
qed

lemma of_char_lower:
  "(of_char (lower c) :: nat) =
     (if 65 \<le> (of_char c :: nat) \<and> (of_char c :: nat) \<le> 90 then of_char c + 32 else of_char c)"
proof -
  have "65 \<le> (of_char c :: nat) \<and> (of_char c :: nat) \<le> 90 \<longrightarrow> (of_char c :: nat) + 32 < 256"
    by arith
  then show ?thesis by (auto simp add: lower_def Let_def)
qed

lemma fold_case_nat:
  fixes n m :: nat
  shows "((if 97 \<le> n \<and> n \<le> 122 then n - 32 else n) = (if 97 \<le> m \<and> m \<le> 122 then m - 32 else m))
     \<longleftrightarrow> ((if 65 \<le> n \<and> n \<le> 90 then n + 32 else n) = (if 65 \<le> m \<and> m \<le> 90 then m + 32 else m))"
  by (simp split: if_splits) arith

lemma canonicalize_eq_iff_lower: "canonicalize c = canonicalize p \<longleftrightarrow> lower c = lower p"
proof -
  have "canonicalize c = canonicalize p \<longleftrightarrow>
        (of_char (canonicalize c) :: nat) = of_char (canonicalize p)"
    by (simp only: of_char_eq_iff)
  also have "\<dots> \<longleftrightarrow> (of_char (lower c) :: nat) = of_char (lower p)"
    by (simp only: of_char_canonicalize of_char_lower fold_case_nat)
  also have "\<dots> \<longleftrightarrow> lower c = lower p"
    by (simp only: of_char_eq_iff)
  finally show ?thesis .
qed

lemma lower_eq_fixed:
  assumes "\<not> (65 \<le> (of_char p :: nat) \<and> (of_char p :: nat) \<le> 90)"
    and "\<not> (97 \<le> (of_char p :: nat) \<and> (of_char p :: nat) \<le> 122)"
  shows "lower c = p \<longleftrightarrow> c = p"
proof -
  have "lower c = p \<longleftrightarrow> (of_char (lower c) :: nat) = of_char p"
    by (simp only: of_char_eq_iff)
  also have "\<dots> \<longleftrightarrow> (of_char c :: nat) = of_char p"
    using assms unfolding of_char_lower by (simp split: if_splits del: of_char_eq_iff) arith
  also have "\<dots> \<longleftrightarrow> c = p"
    by (simp only: of_char_eq_iff)
  finally show ?thesis .
qed

lemma lower_dot: "lower c = CHR ''.'' \<longleftrightarrow> c = CHR ''.''"
  by (rule lower_eq_fixed) simp_all

lemma lower_colon: "lower c = CHR '':'' \<longleftrightarrow> c = CHR '':''"
  by (rule lower_eq_fixed) simp_all

lemma canonicalize_dot: "canonicalize c = canonicalize CHR ''.'' \<longleftrightarrow> c = CHR ''.''"
proof -
  have d: "lower CHR ''.'' = CHR ''.''" by (simp add: lower_def)
  show ?thesis by (simp only: canonicalize_eq_iff_lower d lower_dot)
qed

lemma canonicalize_colon: "canonicalize c = canonicalize CHR '':'' \<longleftrightarrow> c = CHR '':''"
proof -
  have d: "lower CHR '':'' = CHR '':''" by (simp add: lower_def)
  show ?thesis by (simp only: canonicalize_eq_iff_lower d lower_colon)
qed

lemma is_digit_lower: "is_digit (lower c) \<longleftrightarrow> is_digit c"
  unfolding is_digit_def of_char_lower by (simp split: if_splits)

lemma lower_digit: "is_digit c \<Longrightarrow> lower c = c"
  by (simp add: is_digit_def lower_def Let_def)

lemma in_lang_Seq_One:
  "in_lang (Seq (One a) r) w \<longleftrightarrow> (\<exists>c v. w = c # v \<and> atom_matches a c \<and> in_lang r v)"
proof
  assume "in_lang (Seq (One a) r) w"
  then obtain u v where "w = u @ v" and "in_lang (One a) u" and "in_lang r v"
    unfolding in_lang_Seq by blast
  then show "\<exists>c v. w = c # v \<and> atom_matches a c \<and> in_lang r v" by auto
next
  assume "\<exists>c v. w = c # v \<and> atom_matches a c \<and> in_lang r v"
  then obtain c v where w: "w = [c] @ v" and "atom_matches a c" and "in_lang r v" by auto
  then have "in_lang (Seq (One a) r) ([c] @ v)"
    by (intro in_lang.Seq in_lang.One)
  with w show "in_lang (Seq (One a) r) w" by simp
qed

lemma in_lang_Lit: "in_lang (Lit p) w \<longleftrightarrow> map lower w = map lower p"
proof (induction p arbitrary: w)
  case Nil
  then show ?case by simp
next
  case (Cons c p)
  show ?case
    by (cases w) (auto simp add: in_lang_Seq_One Cons.IH canonicalize_eq_iff_lower)
qed

text \<open>One or more characters other than a dot.\<close>

lemma in_lang_Star_class:
  "in_lang (Star (One a)) w \<longleftrightarrow> list_all (atom_matches a) w"
proof (induction w)
  case Nil
  then show ?case by (simp add: in_lang.StarNil)
next
  case (Cons c w)
  then show ?case by (auto simp add: in_lang_Star_Cons)
qed

lemma in_lang_label:
  "in_lang (Plus (One (NotChr CHR ''.''))) w \<longleftrightarrow> is_label w"
  by (cases w)
    (auto simp add: Plus_def in_lang_Seq_One in_lang_Star_class is_label_def canonicalize_dot
      list_all_iff)

lemma in_lang_digits:
  "in_lang (Plus (One Digit)) w \<longleftrightarrow> w \<noteq> [] \<and> list_all is_digit w"
  by (cases w)
    (auto simp add: Plus_def in_lang_Seq_One in_lang_Star_class is_digit_def list_all_iff)

lemma in_lang_label_dot:
  "in_lang (Seq (Plus (One (NotChr CHR ''.''))) (One (Chr CHR ''.''))) w \<longleftrightarrow>
     (\<exists>l. is_label l \<and> w = l @ ''.'')"
  by (auto simp add: in_lang_Seq in_lang_label canonicalize_dot)

lemma in_lang_labels:
  "in_lang (Star (Seq (Plus (One (NotChr CHR ''.''))) (One (Chr CHR ''.'')))) w \<longleftrightarrow>
     (\<exists>ls. list_all is_label ls \<and> w = concat (map (\<lambda>l. l @ ''.'') ls))"
proof
  assume "in_lang (Star (Seq (Plus (One (NotChr CHR ''.''))) (One (Chr CHR ''.'')))) w"
  then obtain ws where w: "w = concat ws"
    and "list_all (in_lang (Seq (Plus (One (NotChr CHR ''.''))) (One (Chr CHR ''.'')))) ws"
    unfolding in_lang_Star_concat by blast
  then have a: "list_all (\<lambda>x. \<exists>l. is_label l \<and> x = l @ ''.'') ws"
    unfolding in_lang_label_dot by simp
  from a have "\<exists>ls. list_all is_label ls \<and> ws = map (\<lambda>l. l @ ''.'') ls"
  proof (induction ws)
    case Nil
    then show ?case by simp
  next
    case (Cons x ws)
    then obtain l ls where "is_label l" "x = l @ ''.''" "list_all is_label ls"
      "ws = map (\<lambda>l. l @ ''.'') ls" by auto
    then have "list_all is_label (l # ls) \<and> x # ws = map (\<lambda>l. l @ ''.'') (l # ls)" by simp
    then show ?case by (rule exI)
  qed
  with w show "\<exists>ls. list_all is_label ls \<and> w = concat (map (\<lambda>l. l @ ''.'') ls)" by blast
next
  assume "\<exists>ls. list_all is_label ls \<and> w = concat (map (\<lambda>l. l @ ''.'') ls)"
  then obtain ls where ls: "list_all is_label ls" and w: "w = concat (map (\<lambda>l. l @ ''.'') ls)"
    by blast
  from ls have "list_all (in_lang (Seq (Plus (One (NotChr CHR ''.''))) (One (Chr CHR ''.''))))
      (map (\<lambda>l. l @ ''.'') ls)"
    by (auto simp add: list_all_iff in_lang_label_dot)
  with w show "in_lang (Star (Seq (Plus (One (NotChr CHR ''.''))) (One (Chr CHR ''.'')))) w"
    unfolding in_lang_Star_concat by blast
qed


lemma lower_dot_fixed: "lower CHR ''.'' = CHR ''.''"
  by (simp add: lower_def)

lemma dot_in_map_lower: "CHR ''.'' \<in> set (map lower l) \<longleftrightarrow> CHR ''.'' \<in> set l"
proof -
  have "CHR ''.'' \<in> set (map lower l) \<longleftrightarrow> (\<exists>x\<in>set l. CHR ''.'' = lower x)"
    by (simp add: image_iff)
  also have "\<dots> \<longleftrightarrow> (\<exists>x\<in>set l. lower x = CHR ''.'')"
    by (simp only: eq_commute [of "CHR ''.''"])
  also have "\<dots> \<longleftrightarrow> CHR ''.'' \<in> set l"
    by (simp add: lower_dot)
  finally show ?thesis .
qed

lemma is_label_map_lower: "is_label (map lower l) \<longleftrightarrow> is_label l"
  unfolding is_label_def dot_in_map_lower by simp

lemma map_lower_labels:
  "map lower (concat (map (\<lambda>l. l @ ''.'') ls)) =
     concat (map (\<lambda>l. l @ ''.'') (map (map lower) ls))"
  by (induction ls) (simp_all add: lower_dot_fixed)

lemma labels_pullback:
  "list_all is_label ls' \<Longrightarrow> map lower b = concat (map (\<lambda>l. l @ ''.'') ls') \<Longrightarrow>
   \<exists>ls. list_all is_label ls \<and> b = concat (map (\<lambda>l. l @ ''.'') ls)"
proof (induction ls' arbitrary: b)
  case Nil
  then have "list_all is_label [] \<and> b = concat (map (\<lambda>l. l @ ''.'') [])" by simp
  then show ?case by (rule exI)
next
  case (Cons l' ls')
  from Cons.prems(2) have "map lower b = l' @ ''.'' @ concat (map (\<lambda>l. l @ ''.'') ls')"
    by simp
  then obtain bl b1 where b: "b = bl @ b1" and bl: "map lower bl = l'"
    and b1: "map lower b1 = ''.'' @ concat (map (\<lambda>l. l @ ''.'') ls')"
    by (auto simp add: map_eq_append_conv)
  from b1 obtain d b2 where b1': "b1 = d # b2" and d: "lower d = CHR ''.''"
    and b2: "map lower b2 = concat (map (\<lambda>l. l @ ''.'') ls')"
    by (cases b1) auto
  from Cons.prems(1) have "list_all is_label ls'" by simp
  from Cons.IH [OF this b2] obtain ls where ls: "list_all is_label ls"
    and b2': "b2 = concat (map (\<lambda>l. l @ ''.'') ls)" by blast
  from Cons.prems(1) bl have "is_label bl"
    using is_label_map_lower [of bl] by simp
  with ls have "list_all is_label (bl # ls)" by simp
  moreover from b b1' d b2' have "b = concat (map (\<lambda>l. l @ ''.'') (bl # ls))"
    by (simp add: lower_dot)
  ultimately have "list_all is_label (bl # ls) \<and> b = concat (map (\<lambda>l. l @ ''.'') (bl # ls))"
    by blast
  then show ?case by (rule exI)
qed

lemma in_lang_Seq3:
  "in_lang (Seq r1 (Seq r2 r3)) t \<longleftrightarrow>
     (\<exists>a b c. t = a @ b @ c \<and> in_lang r1 a \<and> in_lang r2 b \<and> in_lang r3 c)"
proof
  assume "in_lang (Seq r1 (Seq r2 r3)) t"
  then obtain a t1 where "t = a @ t1" "in_lang r1 a" "in_lang (Seq r2 r3) t1"
    unfolding in_lang_Seq [of r1] by blast
  moreover from this(3) obtain b c where "t1 = b @ c" "in_lang r2 b" "in_lang r3 c"
    unfolding in_lang_Seq by blast
  ultimately show "\<exists>a b c. t = a @ b @ c \<and> in_lang r1 a \<and> in_lang r2 b \<and> in_lang r3 c"
    by blast
next
  assume "\<exists>a b c. t = a @ b @ c \<and> in_lang r1 a \<and> in_lang r2 b \<and> in_lang r3 c"
  then obtain a b c where t: "t = a @ b @ c" and "in_lang r1 a" "in_lang r2 b" "in_lang r3 c"
    by blast
  then have "in_lang (Seq r1 (Seq r2 r3)) (a @ b @ c)"
    by (intro in_lang.Seq)
  with t show "in_lang (Seq r1 (Seq r2 r3)) t" by simp
qed

lemma in_lang_sunfire:
  "in_lang (pattern sunfire_re) t \<longleftrightarrow>
     (\<exists>a b c. t = a @ b @ c \<and> map lower a = ''https://'' \<and>
        (\<exists>ls. list_all is_label ls \<and> b = concat (map (\<lambda>l. l @ ''.'') ls)) \<and>
        map lower c = ''sunfirematrix.com'')"
proof -
  have l1: "map lower ''https://'' = ''https://''" by (simp add: lower_def)
  have l2: "map lower ''sunfirematrix.com'' = ''sunfirematrix.com''" by (simp add: lower_def)
  have p: "pattern sunfire_re = Seq (Lit ''https://'')
                 (Seq (Star (Seq (Plus (One (NotChr CHR ''.''))) (One (Chr CHR ''.''))))
                      (Lit ''sunfirematrix.com''))"
    by (simp add: sunfire_re_def del: Lit.simps)
  show ?thesis
    by (simp only: p in_lang_Seq3 in_lang_Lit in_lang_labels l1 l2)
qed

lemma map_eq_appendD:
  "map f xs = ys @ zs \<Longrightarrow> \<exists>us vs. xs = us @ vs \<and> map f us = ys \<and> map f vs = zs"
  by (auto simp add: map_eq_append_conv)

lemma labelled_iff:
  "(\<exists>ls'. list_all is_label ls' \<and> map lower t = p @ concat (map (\<lambda>l. l @ ''.'') ls') @ q) \<longleftrightarrow>
   (\<exists>a b c. t = a @ b @ c \<and> map lower a = p \<and>
      (\<exists>ls. list_all is_label ls \<and> b = concat (map (\<lambda>l. l @ ''.'') ls)) \<and> map lower c = q)"
proof
  assume "\<exists>ls'. list_all is_label ls' \<and> map lower t = p @ concat (map (\<lambda>l. l @ ''.'') ls') @ q"
  then obtain ls' where ls': "list_all is_label ls'"
    and t: "map lower t = p @ concat (map (\<lambda>l. l @ ''.'') ls') @ q"
    by blast
  from map_eq_appendD [OF t] obtain a t1 where ta: "t = a @ t1"
    and a: "map lower a = p"
    and t1: "map lower t1 = concat (map (\<lambda>l. l @ ''.'') ls') @ q"
    by blast
  from map_eq_appendD [OF t1] obtain b c where tb: "t1 = b @ c"
    and b: "map lower b = concat (map (\<lambda>l. l @ ''.'') ls')"
    and c: "map lower c = q"
    by blast
  from labels_pullback [OF ls' b]
  have "\<exists>ls. list_all is_label ls \<and> b = concat (map (\<lambda>l. l @ ''.'') ls)" .
  with ta tb a c show "\<exists>a b c. t = a @ b @ c \<and> map lower a = p \<and>
      (\<exists>ls. list_all is_label ls \<and> b = concat (map (\<lambda>l. l @ ''.'') ls)) \<and> map lower c = q"
    by blast
next
  assume "\<exists>a b c. t = a @ b @ c \<and> map lower a = p \<and>
      (\<exists>ls. list_all is_label ls \<and> b = concat (map (\<lambda>l. l @ ''.'') ls)) \<and> map lower c = q"
  then obtain a ls c where t: "t = a @ concat (map (\<lambda>l. l @ ''.'') ls) @ c"
    and a: "map lower a = p" and ls: "list_all is_label ls"
    and c: "map lower c = q"
    by blast
  from ls have "list_all is_label (map (map lower) ls)"
    by (simp add: list_all_iff is_label_map_lower)
  moreover from t a c have "map lower t =
      p @ concat (map (\<lambda>l. l @ ''.'') (map (map lower) ls)) @ q"
    by (simp only: map_append map_lower_labels)
  ultimately have "list_all is_label (map (map lower) ls) \<and> map lower t =
      p @ concat (map (\<lambda>l. l @ ''.'') (map (map lower) ls)) @ q" by (rule conjI)
  then show "\<exists>ls'. list_all is_label ls' \<and>
      map lower t = p @ concat (map (\<lambda>l. l @ ''.'') ls') @ q"
    by (rule exI)
qed

lemma spec_sunfire_iff: "spec_sunfire t \<longleftrightarrow> in_lang (pattern sunfire_re) t"
  by (simp only: spec_sunfire_def in_lang_sunfire labelled_iff)

subsection \<open>What \<^verbatim>\<open>setCors\<close> accepts, in the words of the specification\<close>

lemma test_sunfire_iff:
  "test sunfire_re origin \<longleftrightarrow> (\<exists>pre t. origin = pre @ t \<and> spec_sunfire t)"
proof -
  have f: "anchor_start sunfire_re = False" "anchor_end sunfire_re = True"
    by (simp_all add: sunfire_re_def)
  have "test sunfire_re origin \<longleftrightarrow> (\<exists>t. suffix t origin \<and> matches (pattern sunfire_re) t)"
    unfolding test_def f by (auto simp add: list_ex_iff)
  also have "\<dots> \<longleftrightarrow> (\<exists>pre t. origin = pre @ t \<and> spec_sunfire t)"
    unfolding matches_iff spec_sunfire_iff suffix_def by blast
  finally show ?thesis .
qed

lemma in_lang_Opt: "in_lang (Opt r) w \<longleftrightarrow> w = [] \<or> in_lang r w"
  by (auto simp add: Opt_def)

lemma in_lang_port:
  "in_lang (Opt (Seq (One (Chr CHR '':'')) (Plus (One Digit)))) v \<longleftrightarrow>
     v = [] \<or> (\<exists>port. v = CHR '':'' # port \<and> port \<noteq> [] \<and> list_all is_digit port)"
  by (simp only: in_lang_Opt in_lang_Seq_One in_lang_digits atom_matches.simps
      canonicalize_colon) blast

lemma with_port_iff:
  "(\<exists>a v. origin = a @ v \<and> map lower a = p \<and>
      (v = [] \<or> (\<exists>port. v = CHR '':'' # port \<and> port \<noteq> [] \<and> list_all is_digit port))) \<longleftrightarrow>
   (map lower origin = p \<or>
    (\<exists>port. port \<noteq> [] \<and> list_all is_digit port \<and> map lower origin = (p @ '':'') @ port))"
proof
  assume "\<exists>a v. origin = a @ v \<and> map lower a = p \<and>
      (v = [] \<or> (\<exists>port. v = CHR '':'' # port \<and> port \<noteq> [] \<and> list_all is_digit port))"
  then obtain a v where o: "origin = a @ v" and a: "map lower a = p"
    and v: "v = [] \<or> (\<exists>port. v = CHR '':'' # port \<and> port \<noteq> [] \<and> list_all is_digit port)"
    by blast
  from v show "map lower origin = p \<or>
    (\<exists>port. port \<noteq> [] \<and> list_all is_digit port \<and> map lower origin = (p @ '':'') @ port)"
  proof
    assume "v = []"
    with o a show ?thesis by simp
  next
    assume "\<exists>port. v = CHR '':'' # port \<and> port \<noteq> [] \<and> list_all is_digit port"
    then obtain port where p: "v = CHR '':'' # port" "port \<noteq> []" "list_all is_digit port"
      by blast
    then have "map lower port = port"
      by (simp add: list_all_iff lower_digit map_idI)
    moreover have "lower CHR '':'' = CHR '':''" by (simp add: lower_def)
    ultimately have "map lower origin = (p @ '':'') @ port"
      using o a p(1) by simp
    with p(2,3) have "port \<noteq> [] \<and> list_all is_digit port \<and>
        map lower origin = (p @ '':'') @ port" by simp
    then have "\<exists>port. port \<noteq> [] \<and> list_all is_digit port \<and>
        map lower origin = (p @ '':'') @ port" by (rule exI)
    then show ?thesis by (rule disjI2)
  qed
next
  assume "map lower origin = p \<or>
    (\<exists>port. port \<noteq> [] \<and> list_all is_digit port \<and> map lower origin = (p @ '':'') @ port)"
  then consider (bare) "map lower origin = p"
    | (port) port where "port \<noteq> []" "list_all is_digit port"
        "map lower origin = (p @ '':'') @ port"
    by blast
  then show "\<exists>a v. origin = a @ v \<and> map lower a = p \<and>
      (v = [] \<or> (\<exists>port. v = CHR '':'' # port \<and> port \<noteq> [] \<and> list_all is_digit port))"
  proof cases
    case bare
    then have "origin = origin @ [] \<and> map lower origin = p \<and>
       ([] = [] \<or> (\<exists>port. [] = CHR '':'' # port \<and> port \<noteq> [] \<and> list_all is_digit port))"
      by simp
    then show ?thesis by (intro exI)
  next
    case port
    from port(3) have "map lower origin = p @ (CHR '':'' # port)" by simp
    from map_eq_appendD [OF this] obtain a v where o: "origin = a @ v"
      and a: "map lower a = p" and v: "map lower v = CHR '':'' # port"
      by (elim exE conjE)
    from v obtain d q where vd: "v = d # q" and d: "lower d = CHR '':''"
      and q: "map lower q = port" by (cases v) auto
    from q port(2) have "list_all is_digit q"
      by (auto simp add: list_all_iff is_digit_lower)
    moreover from q port(1) have "q \<noteq> []" by auto
    moreover from d have "d = CHR '':''" by (simp add: lower_colon)
    ultimately have "v = CHR '':'' # q \<and> q \<noteq> [] \<and> list_all is_digit q"
      using vd by simp
    then have "\<exists>port. v = CHR '':'' # port \<and> port \<noteq> [] \<and> list_all is_digit port"
      by (rule exI)
    with o a have "origin = a @ v \<and> map lower a = p \<and>
      (v = [] \<or> (\<exists>port. v = CHR '':'' # port \<and> port \<noteq> [] \<and> list_all is_digit port))"
      by simp
    then show ?thesis by (intro exI)
  qed
qed

lemma test_local_iff: "test local_re origin \<longleftrightarrow> spec_localhost origin"
proof -
  have l: "map lower ''http://localhost'' = ''http://localhost''"
    by (simp add: lower_def)
  have c: "''http://localhost:'' = ''http://localhost'' @ '':''"
    by simp
  have f: "anchor_start local_re = True" "anchor_end local_re = True"
    "pattern local_re = Seq (Lit ''http://localhost'')
        (Opt (Seq (One (Chr CHR '':'')) (Plus (One Digit))))"
    by (simp_all add: local_re_def del: Lit.simps)
  have "test local_re origin \<longleftrightarrow> in_lang (pattern local_re) origin"
    unfolding test_def f(1,2) by (simp add: matches_iff)
  also have "\<dots> \<longleftrightarrow> spec_localhost origin"
    by (simp only: f(3) in_lang_Seq in_lang_Lit l in_lang_port with_port_iff
        spec_localhost_def c)
  finally show ?thesis .
qed

lemma startsWith_iff: "startsWith s p \<longleftrightarrow> prefix p s"
proof
  assume "startsWith s p"
  then have "s = p @ drop (length p) s"
    by (metis startsWith_def append_take_drop_id)
  then show "prefix p s" by (metis prefixI)
next
  assume "prefix p s"
  then show "startsWith s p" by (auto simp add: startsWith_def prefix_def)
qed

lemma origin_allowed_iff:
  "origin_allowed origin \<longleftrightarrow>
     (\<exists>pre t. origin = pre @ t \<and> spec_sunfire t) \<or> spec_localhost origin \<or>
     spec_extension origin"
  by (simp only: origin_allowed_def test_sunfire_iff test_local_iff startsWith_iff
      spec_extension_def)

lemma spec_origin_match_allowed: "spec_origin_match origin \<Longrightarrow> origin_allowed origin"
  unfolding origin_allowed_iff spec_origin_match_def by (metis append_Nil)

text \<open>The sample origins of the specification, run through the matcher.\<close>

lemma origin_examples:
  "origin_allowed ''https://a.b.sunfirematrix.com''"
  "origin_allowed ''https://SunfireMatrix.com''"
  "origin_allowed ''http://localhost:5173''"
  "origin_allowed ''chrome-extension://abc''"
  "\<not> origin_allowed ''https://evil.com''"
  "\<not> origin_allowed ''''"
  by code_simp+

subsection \<open>The body that is sent\<close>

text \<open>
  Every status the handler writes, other than 204, is one with a body. So the client of a
  request whose method is not HEAD receives as body the data given to \<^verbatim>\<open>end\<close>, and the
  client of a HEAD request receives the head alone.
\<close>

lemma handler_status:
  "\<exists>r. response_of (handler ext req) = Some r \<and>
     (status r = 204 \<and> out_body r = None \<or>
      status r = 200 \<or> status r = 400 \<or> status r = 404 \<or> status r = 500)"
proof (cases req rule: method_cases)
  case preflight
  then show ?thesis by (simp add: response_preflight)
next
  case health
  then show ?thesis by (simp add: response_health del: stringify.simps)
next
  case post
  then obtain st p where "st = 200 \<or> st = 400 \<or> st = 404 \<or> st = 500"
    and "response_of (handler ext req) = Some (json_response req st p)"
    using response_json [of req ext] by auto
  then show ?thesis by (auto simp add: json_response_def)
next
  case other
  then show ?thesis by (simp add: response_other json_response_def del: stringify.simps)
qed

lemma received_body_as_written:
  assumes "method req \<noteq> ''HEAD''"
  shows "received_body req (handler ext req) = body_of (handler ext req)"
proof -
  from handler_status [of ext req] obtain r where
    r: "response_of (handler ext req) = Some r"
    and st: "status r = 204 \<and> out_body r = None \<or>
      status r = 200 \<or> status r = 400 \<or> status r = 404 \<or> status r = 500"
    by blast
  from st assms have "out_body (received req r) = out_body r"
    by (auto simp add: received_def has_body_def)
  with r show ?thesis
    by (simp add: received_body_def received_of_def body_of_def)
qed

lemma received_body_HEAD:
  assumes "method req = ''HEAD''"
  shows "received_body req (handler ext req) = Some None"
proof -
  from handler_status [of ext req] obtain r where
    r: "response_of (handler ext req) = Some r"
    by blast
  from assms have "out_body (received req r) = None"
    by (simp add: received_def has_body_def)
  with r show ?thesis
    by (simp add: received_body_def received_of_def)
qed

lemma received_head_as_written:
  "map_option status (received_of req t) = status_of t"
  "map_option (\<lambda>r. out_headers r name) (received_of req t) = header_of t name"
  by (cases "response_of t"; simp add: received_of_def received_def status_of_def header_of_def)+

section \<open>The claims\<close>

text \<open>
  Claim C1: the origin is echoed exactly when it matches, as a whole string, one of the
  three patterns. The source does not do this: the literal for the Sunfire domain has
  \<^verbatim>\<open>$\<close> and no \<^verbatim>\<open>^\<close>, unlike the literal for localhost beside it, so an origin that
  merely ends in a Sunfire origin is echoed. Evaluated here: a request whose Origin header
  is \<^verbatim>\<open>http://evil.example/https://sunfirematrix.com\<close> is answered with that value in
  Access-Control-Allow-Origin, and the value matches none of the three patterns of the
  specification. What the source accepts is stated by \<open>origin_allowed_iff\<close> above: an
  origin of which some suffix is a Sunfire origin, a localhost origin, or an origin with
  the extension prefix.
\<close>

theorem C1_sunfire_pattern_not_anchored:
  "header_of
     (handler stub_externals
        \<lparr>method = ''GET'', url = ''/health'',
         headers = [''origin'' \<mapsto> ''http://evil.example/https://sunfirematrix.com''],
         chunks = []\<rparr>)
     ''Access-Control-Allow-Origin''
   = Some (Some (HStr ''http://evil.example/https://sunfirematrix.com''))
   \<and> header_of
     (handler stub_externals
        \<lparr>method = ''GET'', url = ''/health'',
         headers = [''origin'' \<mapsto> ''http://evil.example/https://sunfirematrix.com''],
         chunks = []\<rparr>)
     ''Vary''
   = Some (Some (HStr ''Origin''))
   \<and> \<not> spec_origin_match ''http://evil.example/https://sunfirematrix.com''"
proof -
  let ?o = "''http://evil.example/https://sunfirematrix.com''"
  let ?req = "\<lparr>method = ''GET'', url = ''/health'', headers = [''origin'' \<mapsto> ?o],
               chunks = []\<rparr>"
  have o: "origin_of ?req = ?o"
    by (simp add: origin_of_def orElse_def)
  have a: "origin_allowed ?o"
    by (simp add: origin_allowed_def test_def sunfire_re_def suffixes_eq_snoc
        canonicalize_def Plus_def)
  have "header_of (handler stub_externals ?req) ''Access-Control-Allow-Origin''
          = Some (Some (HStr ?o))"
    using o a
    by (simp add: header_of_def response_health health_path_def cors_headers_origin
        del: stringify.simps)
  moreover have "header_of (handler stub_externals ?req) ''Vary'' = Some (Some (HStr ''Origin''))"
    using o a
    by (simp add: header_of_def response_health health_path_def cors_headers_origin
        del: stringify.simps)
  moreover have "\<not> spec_origin_match ?o"
    by (simp add: spec_origin_match_def spec_sunfire_def spec_localhost_def
        spec_extension_def lower_def)
  ultimately show ?thesis by blast
qed

text \<open>
  Claim C2: every request is answered exactly once. Whatever the request, the parser and
  the collaborators do, the run of the handler replays on the response object to a
  finished response, and it holds exactly one call of \<^verbatim>\<open>writeHead\<close> and exactly one call
  of \<^verbatim>\<open>end\<close>. (A request is taken with its whole body, and a collaborator's promise is
  taken as settled, fulfilled or rejected.)
\<close>

theorem C2_exactly_one_response:
  "(\<exists>r. response_of (handler ext req) = Some r) \<and>
   length (filter is_WriteHead (handler ext req)) = 1 \<and>
   length (filter is_End (handler ext req)) = 1"
proof -
  obtain others st hs data where
    t: "handler ext req = setCors req [] @ others @ [WriteHead st hs, End data]"
    and q: "list_all is_quiet others"
    using answers_once_shape [OF handler_answers_once] by blast
  have "response_of (handler ext req) =
      Some \<lparr>status = st,
            out_headers = foldl (\<lambda>m kv. m(fst kv \<mapsto> snd kv)) (cors_headers req) hs,
            out_body = data\<rparr>"
    by (simp add: response_of_def t replay_setCors replay_quiet [OF q])
  moreover have "length (filter is_WriteHead (handler ext req)) = 1"
    by (simp add: t filter_setCors filter_quiet [OF q])
  moreover have "length (filter is_End (handler ext req)) = 1"
    by (simp add: t filter_setCors filter_quiet [OF q])
  ultimately show ?thesis by blast
qed

theorem C2_exactly_one_response_witness:
  "status_of
     (handler failing_externals
        \<lparr>method = ''POST'', url = ''/plans'', headers = Map.empty, chunks = [''{'', ''}'']\<rparr>)
     = Some 500 \<and>
   length (filter is_WriteHead
     (handler failing_externals
        \<lparr>method = ''POST'', url = ''/plans'', headers = Map.empty, chunks = [''{'', ''}'']\<rparr>))
     = 1 \<and>
   length (filter is_End
     (handler failing_externals
        \<lparr>method = ''POST'', url = ''/plans'', headers = Map.empty, chunks = [''{'', ''}'']\<rparr>))
     = 1"
proof -
  let ?req = "\<lparr>method = ''POST'', url = ''/plans'', headers = Map.empty,
               chunks = [''{'', ''}'']\<rparr>"
  have "status_of (handler failing_externals ?req) = Some 500"
    by (simp add: status_of_def response_POST parsed_text_def request_body_def orElse_def
        failing_externals_def parse_stub_def plans_path_def json_response_def
        del: stringify.simps)
  with C2_exactly_one_response [of failing_externals ?req] show ?thesis by blast
qed

text \<open>
  Claim C3: every response whose status is not 204 carries Content-Type and a
  Content-Length equal to the byte length of its body, and a response with status 204
  carries neither. The source does this wherever it answers through \<^verbatim>\<open>sendJson\<close>, and
  for status 204 (lemma \<open>content_headers\<close> above); the answer to the health check is
  written by the handler itself, with \<^verbatim>\<open>writeHead(200, {'Content-Type': ...})\<close>, and has
  no Content-Length. Evaluated here: GET /health is answered with status 200 and without
  a Content-Length header.
\<close>

theorem C3_health_has_no_content_length:
  "status_of
     (handler stub_externals
        \<lparr>method = ''GET'', url = ''/health'', headers = Map.empty, chunks = []\<rparr>)
     = Some 200 \<and>
   header_of
     (handler stub_externals
        \<lparr>method = ''GET'', url = ''/health'', headers = Map.empty, chunks = []\<rparr>)
     ''Content-Length''
     = Some None"
  by (simp add: status_of_def header_of_def response_health health_path_def
      del: stringify.simps)

text \<open>
  Claim C4: on every path the handler first calls \<^verbatim>\<open>setCors\<close>, which only sets headers,
  among them the three unconditional ones; the head and the body are written after that.
  So the run starts with the events of \<^verbatim>\<open>setCors\<close>, none of which writes to the
  connection, and the response that is sent carries the three unconditional headers, and
  Access-Control-Allow-Origin and Vary according to the decision on the origin.
\<close>

theorem C4_cors_headers_first:
  "\<exists>rest r.
     handler ext req = setCors req [] @ rest \<and>
     list_all is_SetHeader (setCors req []) \<and>
     SetHeader ''Access-Control-Allow-Methods'' (HStr ''GET, POST, OPTIONS'')
       \<in> set (setCors req []) \<and>
     SetHeader ''Access-Control-Allow-Headers'' (HStr ''Content-Type, Authorization'')
       \<in> set (setCors req []) \<and>
     SetHeader ''Access-Control-Max-Age'' (HStr ''86400'') \<in> set (setCors req []) \<and>
     response_of (handler ext req) = Some r \<and>
     out_headers r ''Access-Control-Allow-Methods'' = Some (HStr ''GET, POST, OPTIONS'') \<and>
     out_headers r ''Access-Control-Allow-Headers''
       = Some (HStr ''Content-Type, Authorization'') \<and>
     out_headers r ''Access-Control-Max-Age'' = Some (HStr ''86400'') \<and>
     out_headers r ''Access-Control-Allow-Origin''
       = (if origin_allowed (origin_of req) then Some (HStr (origin_of req)) else None) \<and>
     out_headers r ''Vary''
       = (if origin_allowed (origin_of req) then Some (HStr ''Origin'') else None)"
proof -
  obtain rest where rest: "handler ext req = setCors req [] @ rest"
    using handler_prefix by blast
  obtain r where r: "response_of (handler ext req) = Some r"
    using handler_headers_cors [of "''Vary''" ext req] by auto
  have h: "out_headers r name = cors_headers req name"
    if "name \<noteq> ''Content-Type''" and "name \<noteq> ''Content-Length''" for name
    using handler_headers_cors [OF that, of ext req] r by auto
  have "out_headers r ''Access-Control-Allow-Methods'' = Some (HStr ''GET, POST, OPTIONS'')"
    by (simp add: h cors_headers_fixed)
  moreover have "out_headers r ''Access-Control-Allow-Headers''
       = Some (HStr ''Content-Type, Authorization'')"
    by (simp add: h cors_headers_fixed)
  moreover have "out_headers r ''Access-Control-Max-Age'' = Some (HStr ''86400'')"
    by (simp add: h cors_headers_fixed)
  moreover have "out_headers r ''Access-Control-Allow-Origin''
       = (if origin_allowed (origin_of req) then Some (HStr (origin_of req)) else None)"
    by (simp add: h cors_headers_origin)
  moreover have "out_headers r ''Vary''
       = (if origin_allowed (origin_of req) then Some (HStr ''Origin'') else None)"
    by (simp add: h cors_headers_origin)
  ultimately show ?thesis
    using rest r setCors_only_SetHeader [of req] setCors_events [of req] by blast
qed

theorem C4_cors_headers_first_witness:
  "header_of
     (handler stub_externals
        \<lparr>method = ''DELETE'', url = ''/plans'',
         headers = [''origin'' \<mapsto> ''chrome-extension://abc''], chunks = []\<rparr>)
     ''Access-Control-Max-Age''
     = Some (Some (HStr ''86400'')) \<and>
   header_of
     (handler stub_externals
        \<lparr>method = ''DELETE'', url = ''/plans'',
         headers = [''origin'' \<mapsto> ''chrome-extension://abc''], chunks = []\<rparr>)
     ''Access-Control-Allow-Origin''
     = Some (Some (HStr ''chrome-extension://abc''))"
proof -
  let ?req = "\<lparr>method = ''DELETE'', url = ''/plans'',
               headers = [''origin'' \<mapsto> ''chrome-extension://abc''], chunks = []\<rparr>"
  have o: "origin_of ?req = ''chrome-extension://abc''"
    by (simp add: origin_of_def orElse_def)
  have a: "origin_allowed ''chrome-extension://abc''"
    by (simp add: origin_allowed_def startsWith_def)
  from C4_cors_headers_first [of stub_externals ?req] o a show ?thesis
    by (auto simp add: header_of_def)
qed

text \<open>
  Claim C5: a POST to one of the four paths whose collaborator is rejected (the body having
  parsed) is answered with status 500 and the body \<^verbatim>\<open>{"error":"Internal server error"}\<close>;
  what was thrown is passed to \<^verbatim>\<open>console.error\<close>; and the whole response is the one
  \<^verbatim>\<open>sendJson\<close> builds from the request and the fixed payload, in which the error does
  not occur.
\<close>

theorem C5_collaborator_failure:
  assumes "method req = ''POST''"
    and "JSON_parse ext (parsed_text req) = Some payload"
    and "(url req = ''/plans'' \<or> url req = ''/api/plans'') \<and> fetchPlans ext payload = Inl err \<or>
         (url req = ''/ai-recommend'' \<or> url req = ''/api/recommend'') \<and>
           generateClosingScript ext payload = Inl err"
  shows \<open>response_of (handler ext req) =
           Some (json_response req 500 (JObj [(''error'', JStr ''Internal server error'')])) \<and>
         status_of (handler ext req) = Some 500 \<and>
         body_of (handler ext req) = Some (Some ''{"error":"Internal server error"}'') \<and>
         ConsoleError err \<in> set (handler ext req)\<close>
proof -
  from assms(3) have c: "plans_path (url req) \<and> fetchPlans ext payload = Inl err \<or>
      recommend_path (url req) \<and> generateClosingScript ext payload = Inl err"
    by (simp add: plans_path_def recommend_path_def)
  have r: "response_of (handler ext req) =
           Some (json_response req 500 (JObj [(''error'', JStr ''Internal server error'')]))"
    using assms(1,2) c by (auto simp add: response_POST paths_disjoint simp del: stringify.simps)
  have "ConsoleError err \<in> set (handler ext req)"
    using assms(1,2) c
    by (auto simp add: handler_POST_events sendJson_append paths_disjoint
        simp del: stringify.simps)
  with r show ?thesis
    by (simp add: status_of_def body_of_def json_response_def stringify_internal
        del: stringify.simps)
qed

theorem C5_collaborator_failure_witness:
  \<open>status_of
     (handler failing_externals
        \<lparr>method = ''POST'', url = ''/plans'', headers = Map.empty, chunks = [''[]'']\<rparr>)
     = Some 500 \<and>
   body_of
     (handler failing_externals
        \<lparr>method = ''POST'', url = ''/plans'', headers = Map.empty, chunks = [''[]'']\<rparr>)
     = Some (Some ''{"error":"Internal server error"}'') \<and>
   ConsoleError (Error ''ECONNREFUSED 10.0.0.7:5432'')
     \<in> set (handler failing_externals
        \<lparr>method = ''POST'', url = ''/plans'', headers = Map.empty, chunks = [''[]'']\<rparr>) \<and>
   status_of
     (handler failing_externals
        \<lparr>method = ''POST'', url = ''/api/recommend'', headers = Map.empty, chunks = []\<rparr>)
     = Some 500\<close>
proof -
  let ?plans = "\<lparr>method = ''POST'', url = ''/plans'', headers = Map.empty,
                 chunks = [''[]'']\<rparr>"
  let ?rec = "\<lparr>method = ''POST'', url = ''/api/recommend'', headers = Map.empty,
               chunks = []\<rparr>"
  have p1: "JSON_parse failing_externals (parsed_text ?plans) = Some (JArr [])"
    by (simp add: failing_externals_def parse_stub_def parsed_text_def request_body_def
        orElse_def)
  have p2: "JSON_parse failing_externals (parsed_text ?rec) = Some (JObj [])"
    by (simp add: failing_externals_def parse_stub_def parsed_text_def request_body_def
        orElse_def)
  have f1: "fetchPlans failing_externals (JArr []) = Inl (Error ''ECONNREFUSED 10.0.0.7:5432'')"
    by (simp add: failing_externals_def)
  have f2: "generateClosingScript failing_externals (JObj []) = Inl (Error ''upstream timeout'')"
    by (simp add: failing_externals_def)
  from C5_collaborator_failure [of ?plans failing_externals, OF _ p1] f1
    C5_collaborator_failure [of ?rec failing_externals, OF _ p2] f2
  show ?thesis by simp
qed



text \<open>
  Claim C7: a request with method OPTIONS, whatever its path and origin, is answered with
  status 204 and no body, and nothing else happens: after the calls of \<^verbatim>\<open>setCors\<close> the
  run is the head and the end, and no collaborator is called.
\<close>

theorem C7_preflight:
  assumes "method req = ''OPTIONS''"
  shows "handler ext req = setCors req [] @ [WriteHead 204 [], End None] \<and>
         status_of (handler ext req) = Some 204 \<and>
         body_of (handler ext req) = Some None \<and>
         \<not> list_ex is_collaborator_call (handler ext req)"
proof -
  have t: "handler ext req = setCors req [] @ [WriteHead 204 [], End None]"
    using assms by (rule handler_OPTIONS)
  have "status_of (handler ext req) = Some 204" and "body_of (handler ext req) = Some None"
    using assms by (simp_all add: status_of_def body_of_def response_preflight)
  moreover have "\<not> list_ex is_collaborator_call (handler ext req)"
    using setCors_no_call [of req] by (simp add: t)
  ultimately show ?thesis using t by blast
qed

theorem C7_preflight_witness:
  "status_of
     (handler failing_externals
        \<lparr>method = ''OPTIONS'', url = ''/no/such/path'',
         headers = [''origin'' \<mapsto> ''https://evil.com''], chunks = [''{'']\<rparr>)
     = Some 204 \<and>
   body_of
     (handler failing_externals
        \<lparr>method = ''OPTIONS'', url = ''/no/such/path'',
         headers = [''origin'' \<mapsto> ''https://evil.com''], chunks = [''{'']\<rparr>)
     = Some None"
proof -
  let ?req = "\<lparr>method = ''OPTIONS'', url = ''/no/such/path'',
         headers = [''origin'' \<mapsto> ''https://evil.com''], chunks = [''{'']\<rparr>"
  have m: "method ?req = ''OPTIONS''" by simp
  from C7_preflight [OF m, of failing_externals] show ?thesis by blast
qed

text \<open>
  Claim C8, as stated: every request whose method is neither OPTIONS nor POST, and which
  is not a GET of \<^verbatim>\<open>/health\<close> or \<^verbatim>\<open>/api/health\<close>, is answered with status 404 and the
  body \<^verbatim>\<open>{"error":"Not found"}\<close>. HEAD is such a method, and the response to a HEAD
  request has no body: the handler gives the text to \<^verbatim>\<open>end\<close> as for any other method,
  and Node sends the head, with Content-Length: 21, and discards the data.
\<close>

theorem C8_head_receives_no_body:
  "status_of
     (handler stub_externals
        \<lparr>method = ''HEAD'', url = ''/plans'', headers = Map.empty, chunks = []\<rparr>)
     = Some 404 \<and>
   header_of
     (handler stub_externals
        \<lparr>method = ''HEAD'', url = ''/plans'', headers = Map.empty, chunks = []\<rparr>)
     ''Content-Length''
     = Some (Some (HNum 21)) \<and>
   received_body
     \<lparr>method = ''HEAD'', url = ''/plans'', headers = Map.empty, chunks = []\<rparr>
     (handler stub_externals
        \<lparr>method = ''HEAD'', url = ''/plans'', headers = Map.empty, chunks = []\<rparr>)
     = Some None"
proof -
  let ?req = "\<lparr>method = ''HEAD'', url = ''/plans'', headers = Map.empty, chunks = []\<rparr>"
  have r: "response_of (handler stub_externals ?req) =
      Some (json_response ?req 404 (JObj [(''error'', JStr ''Not found'')]))"
    by (simp add: response_other del: stringify.simps)
  have "status_of (handler stub_externals ?req) = Some 404"
    by (simp add: r status_of_def json_response_def del: stringify.simps)
  moreover have "header_of (handler stub_externals ?req) ''Content-Length''
      = Some (Some (HNum 21))"
    by (simp add: r header_of_def json_response_def byteLength_def stringify_not_found
        del: stringify.simps)
  moreover have "received_body ?req (handler stub_externals ?req) = Some None"
    by (simp add: r received_body_def received_of_def received_def has_body_def
        json_response_def del: stringify.simps)
  ultimately show ?thesis by blast
qed

text \<open>
  Claim C8, amended: a request whose method is neither OPTIONS nor POST, and which is not
  a GET of \<^verbatim>\<open>/health\<close> or \<^verbatim>\<open>/api/health\<close>, is answered with status 404 (so not 405)
  and with Content-Length: 21, the length of \<^verbatim>\<open>{"error":"Not found"}\<close>; the client
  receives that text as the body unless the method is HEAD, and no body when it is. GET
  /plans is such a request, and it receives the body.
\<close>

theorem C8_other_methods_not_found:
  assumes "method req \<noteq> ''OPTIONS''" and "method req \<noteq> ''POST''"
    and "\<not> (method req = ''GET'' \<and> (url req = ''/health'' \<or> url req = ''/api/health''))"
  shows \<open>status_of (handler ext req) = Some 404 \<and>
         header_of (handler ext req) ''Content-Length'' = Some (Some (HNum 21)) \<and>
         received_body req (handler ext req) =
           (if method req = ''HEAD'' then Some None
            else Some (Some ''{"error":"Not found"}''))\<close>
proof -
  from assms have "\<not> (method req = ''GET'' \<and> health_path (url req))"
    by (auto simp add: health_path_def)
  with assms have r: "response_of (handler ext req) =
      Some (json_response req 404 (JObj [(''error'', JStr ''Not found'')]))"
    by (simp add: response_other del: stringify.simps)
  have "status_of (handler ext req) = Some 404"
    by (simp add: r status_of_def json_response_def del: stringify.simps)
  moreover have "header_of (handler ext req) ''Content-Length'' = Some (Some (HNum 21))"
    by (simp add: r header_of_def json_response_def byteLength_def stringify_not_found
        del: stringify.simps)
  moreover have \<open>received_body req (handler ext req) =
      (if method req = ''HEAD'' then Some None else Some (Some ''{"error":"Not found"}''))\<close>
    by (simp add: r received_body_def received_of_def received_def has_body_def
        json_response_def stringify_not_found del: stringify.simps)
  ultimately show ?thesis by blast
qed

theorem C8_other_methods_not_found_witness:
  \<open>status_of
     (handler stub_externals
        \<lparr>method = ''GET'', url = ''/plans'', headers = Map.empty, chunks = []\<rparr>)
     = Some 404 \<and>
   received_body
     \<lparr>method = ''GET'', url = ''/plans'', headers = Map.empty, chunks = []\<rparr>
     (handler stub_externals
        \<lparr>method = ''GET'', url = ''/plans'', headers = Map.empty, chunks = []\<rparr>)
     = Some (Some ''{"error":"Not found"}'') \<and>
   received_body
     \<lparr>method = ''HEAD'', url = ''/health'', headers = Map.empty, chunks = []\<rparr>
     (handler stub_externals
        \<lparr>method = ''HEAD'', url = ''/health'', headers = Map.empty, chunks = []\<rparr>)
     = Some None\<close>
  using C8_other_methods_not_found
    [of "\<lparr>method = ''GET'', url = ''/plans'', headers = Map.empty, chunks = []\<rparr>"
      stub_externals]
    C8_other_methods_not_found
    [of "\<lparr>method = ''HEAD'', url = ''/health'', headers = Map.empty, chunks = []\<rparr>"
      stub_externals]
  by simp

text \<open>
  Claim C9: the paths are compared as whole strings. A POST whose body parses and whose
  path is not exactly one of \<^verbatim>\<open>/plans\<close>, \<^verbatim>\<open>/api/plans\<close>, \<^verbatim>\<open>/ai-recommend\<close>,
  \<^verbatim>\<open>/api/recommend\<close> is answered with status 404 and the body
  \<^verbatim>\<open>{"error":"Not found"}\<close>, and no collaborator is called; so it is for
  \<^verbatim>\<open>/plans?x=1\<close>, \<^verbatim>\<open>/plans/\<close> and \<^verbatim>\<open>/Plans\<close>.
\<close>

theorem C9_exact_paths:
  assumes "method req = ''POST''"
    and "JSON_parse ext (parsed_text req) = Some payload"
    and "url req \<noteq> ''/plans''" and "url req \<noteq> ''/api/plans''"
    and "url req \<noteq> ''/ai-recommend''" and "url req \<noteq> ''/api/recommend''"
  shows \<open>status_of (handler ext req) = Some 404 \<and>
         body_of (handler ext req) = Some (Some ''{"error":"Not found"}'') \<and>
         \<not> list_ex is_collaborator_call (handler ext req)\<close>
proof -
  from assms have np: "\<not> plans_path (url req)" and nr: "\<not> recommend_path (url req)"
    by (simp_all add: plans_path_def recommend_path_def)
  with assms have "response_of (handler ext req) =
      Some (json_response req 404 (JObj [(''error'', JStr ''Not found'')]))"
    by (simp add: response_POST del: stringify.simps)
  moreover have "\<not> list_ex is_collaborator_call (handler ext req)"
    using assms np nr setCors_no_call [of req]
    by (simp add: handler_POST_events sendJson_append del: stringify.simps)
  ultimately show ?thesis
    by (simp add: status_of_def body_of_def json_response_def stringify_not_found
        del: stringify.simps)
qed

theorem C9_exact_paths_witness:
  \<open>status_of
     (handler stub_externals
        \<lparr>method = ''POST'', url = ''/plans?x=1'', headers = Map.empty, chunks = [''{}'']\<rparr>)
     = Some 404 \<and>
   body_of
     (handler stub_externals
        \<lparr>method = ''POST'', url = ''/plans?x=1'', headers = Map.empty, chunks = [''{}'']\<rparr>)
     = Some (Some ''{"error":"Not found"}'') \<and>
   status_of
     (handler stub_externals
        \<lparr>method = ''POST'', url = ''/plans/'', headers = Map.empty, chunks = [''{}'']\<rparr>)
     = Some 404 \<and>
   status_of
     (handler stub_externals
        \<lparr>method = ''POST'', url = ''/Plans'', headers = Map.empty, chunks = [''{}'']\<rparr>)
     = Some 404\<close>
proof -
  have p: "JSON_parse stub_externals
      (parsed_text \<lparr>method = ''POST'', url = u, headers = Map.empty, chunks = [''{}'']\<rparr>)
      = Some (JObj [])" for u
    by (simp add: stub_externals_def parse_stub_def parsed_text_def request_body_def
        orElse_def)
  from C9_exact_paths [OF _ p [of "''/plans?x=1''"]]
    C9_exact_paths [OF _ p [of "''/plans/''"]]
    C9_exact_paths [OF _ p [of "''/Plans''"]]
  show ?thesis by simp
qed

text \<open>
  Claim C10: when the non-empty body of a POST request does not parse, the run holds no
  call of \<^verbatim>\<open>fetchPlans\<close> and none of \<^verbatim>\<open>generateClosingScript\<close>, and the answer is
  status 400.
\<close>

theorem C10_invalid_json_calls_nothing:
  assumes "method req = ''POST''"
    and "request_body req \<noteq> []"
    and "JSON_parse ext (request_body req) = None"
  shows "\<not> list_ex is_collaborator_call (handler ext req) \<and>
         status_of (handler ext req) = Some 400"
proof -
  from assms have p: "JSON_parse ext (parsed_text req) = None"
    by (simp add: parsed_text_nonempty)
  with assms have "\<not> list_ex is_collaborator_call (handler ext req)"
    using setCors_no_call [of req]
    by (simp add: handler_POST_events sendJson_append del: stringify.simps)
  moreover from assms p have "status_of (handler ext req) = Some 400"
    by (simp add: response_POST status_of_def json_response_def del: stringify.simps)
  ultimately show ?thesis by blast
qed

theorem C10_invalid_json_calls_nothing_witness:
  "\<not> list_ex is_collaborator_call
      (handler stub_externals
         \<lparr>method = ''POST'', url = ''/ai-recommend'', headers = Map.empty,
          chunks = [''{'', ''\"plan\":'']\<rparr>) \<and>
   status_of
      (handler stub_externals
         \<lparr>method = ''POST'', url = ''/ai-recommend'', headers = Map.empty,
          chunks = [''{'', ''\"plan\":'']\<rparr>)
     = Some 400"
proof -
  let ?req = "\<lparr>method = ''POST'', url = ''/ai-recommend'', headers = Map.empty,
          chunks = [''{'', ''\"plan\":'']\<rparr>"
  have b: "request_body ?req \<noteq> []"
    by (simp add: request_body_def)
  have p: "JSON_parse stub_externals (request_body ?req) = None"
    by (simp add: stub_externals_def parse_stub_def request_body_def)
  from C10_invalid_json_calls_nothing [OF _ b p] show ?thesis by simp
qed

end
